theory Spec2Isabelle
  imports Complex_Main "HOL-Library.Log_Nat"
begin

section \<open>Union: the data layer (accounts, servers, invites)\<close>

text \<open>
  The JavaScript module keeps three RethinkDB tables, \<open>users\<close>, \<open>servers\<close> and
  \<open>invites\<close>, each keyed by the field \<open>id\<close> (here \<open>user_id\<close>, \<open>server_id\<close> and
  \<open>code\<close>). Every exported function is a short sequence of queries against them.
  The embedding makes the store an explicit value that each operation takes and returns; a JavaScript value that may be \<open>undefined\<close>
  or \<open>null\<close> is a value of \<open>js_field\<close>; a thrown error is the left summand of a sum;
  the one unbounded loop is a function into \<open>option\<close>, where \<open>None\<close> means that the
  loop never leaves.
\<close>

subsection \<open>Values and documents\<close>

datatype 'a js_field = Undefined | Null | Val 'a

datatype error = ReqlNonExistenceError | Error string

text \<open>Truthiness of a string-valued expression: \<open>undefined\<close>, \<open>null\<close> and \<open>''\<close> are falsy.\<close>

fun truthy :: "string js_field \<Rightarrow> bool" where
  "truthy Undefined = False"
| "truthy Null = False"
| "truthy (Val s) = (s \<noteq> [])"

text \<open>The string held by an expression that has passed a truthiness test.\<close>

fun string_of :: "string js_field \<Rightarrow> string" where
  "string_of (Val s) = s"
| "string_of _ = []"

text \<open>
  A member is what the queries return after \<open>.without(['servers', 'password'])\<close>; a user
  document adds the two private fields. Server ids are JavaScript numbers that hold
  non-negative integers; the record keeps the integer, and \<open>createServer\<close> adds in
  binary64 (\<open>js_add\<close> below). A server's \<open>iconUrl\<close> is a string or \<open>null\<close>, here \<open>None\<close>.
\<close>

record member =
  user_id :: string
  username :: string
  discriminator :: string
  avatarUrl :: "string js_field"
  online :: bool
  admin :: "bool js_field"

record user = member +
  password :: string
  servers :: "nat list"

record server =
  server_id :: nat
  name :: string
  iconUrl :: "string option"
  owner :: string

record joined_server = server +
  members :: "member list"

record invite =
  code :: string
  serverId :: nat
  inviter :: string

record db =
  users_table :: "user list"
  servers_table :: "server list"
  invites_table :: "invite list"

subsection \<open>The ReQL operations the module uses\<close>

text \<open>
  A table is the list of its documents. \<open>get\<close> yields the document with the key or
  \<open>null\<close>; \<open>insert\<close> refuses a document whose key is present (it reports the conflict in
  its result and does not throw); \<open>get(k).update(f)\<close> and \<open>get(k).delete()\<close> touch the
  document with key \<open>k\<close> and nothing else.
\<close>

definition tbl_get :: "('a \<Rightarrow> 'k) \<Rightarrow> 'k \<Rightarrow> 'a list \<Rightarrow> 'a option" where
  "tbl_get key k xs = find (\<lambda>x. key x = k) xs"

definition tbl_insert :: "('a \<Rightarrow> 'k) \<Rightarrow> 'a \<Rightarrow> 'a list \<Rightarrow> 'a list" where
  "tbl_insert key x xs = (if tbl_get key (key x) xs = None then xs @ [x] else xs)"

definition tbl_update :: "('a \<Rightarrow> 'k) \<Rightarrow> 'k \<Rightarrow> ('a \<Rightarrow> 'a) \<Rightarrow> 'a list \<Rightarrow> 'a list" where
  "tbl_update key k f xs = map (\<lambda>x. if key x = k then f x else x) xs"

definition tbl_delete :: "('a \<Rightarrow> 'k) \<Rightarrow> 'k \<Rightarrow> 'a list \<Rightarrow> 'a list" where
  "tbl_delete key k xs = filter (\<lambda>x. key x \<noteq> k) xs"

text \<open>\<open>seq.nth(0)\<close> raises a non-existence error on an empty sequence; \<open>.default(d)\<close> catches it.\<close>

definition reql_nth0 :: "'a list \<Rightarrow> error + 'a" where
  "reql_nth0 xs = (case xs of [] \<Rightarrow> Inl ReqlNonExistenceError | x # _ \<Rightarrow> Inr x)"

definition reql_default :: "'a \<Rightarrow> error + 'a \<Rightarrow> error + 'a" where
  "reql_default d r = (case r of Inl ReqlNonExistenceError \<Rightarrow> Inr d | _ \<Rightarrow> r)"

text \<open>\<open>table.max('id')\<close> is the document with the largest id; on an empty table it raises.\<close>

definition reql_max :: "server list \<Rightarrow> error + server" where
  "reql_max xs = (case xs of [] \<Rightarrow> Inl ReqlNonExistenceError
     | x # ys \<Rightarrow> Inr (foldl (\<lambda>a b. if server_id a < server_id b then b else a) x ys))"

text \<open>\<open>row('servers').append(id)\<close> and \<open>row('servers').difference([id])\<close>.\<close>

definition reql_append :: "nat list \<Rightarrow> nat \<Rightarrow> nat list" where
  "reql_append xs k = xs @ [k]"

definition reql_difference :: "nat list \<Rightarrow> nat list \<Rightarrow> nat list" where
  "reql_difference xs ks = filter (\<lambda>x. x \<notin> set ks) xs"

text \<open>\<open>u('servers').contains(k)\<close> and JavaScript's \<open>user.servers.includes(k)\<close>.\<close>

definition contains :: "nat list \<Rightarrow> nat \<Rightarrow> bool" where
  "contains xs k = (k \<in> set xs)"

subsection \<open>JavaScript numbers\<close>

text \<open>
  A JavaScript number is an IEEE 754 binary64 value, and \<open>*\<close> and \<open>+\<close> round their exact
  result to the nearest such value, ties to the even significand. \<open>rne\<close> is that
  rounding to an integer. \<open>round53\<close> rounds a non-negative rational counted in units
  of \<open>2^-1074\<close>, the smallest positive binary64 value: it keeps 53 significant bits, and
  all bits below \<open>2^53\<close> units (the subnormal range and the first binade). \<open>binary64\<close> is
  the rounding of a rational of magnitude below \<open>2^1024\<close>; the module's arithmetic stays
  far below that, so overflow is not modelled.
\<close>

definition rne :: "rat \<Rightarrow> int" where
  "rne y = (let f = \<lfloor>y\<rfloor>; d = y - of_int f
            in if d < 1 / 2 then f else if 1 / 2 < d then f + 1
               else if even f then f else f + 1)"

definition round53 :: "rat \<Rightarrow> rat" where
  "round53 X = (let s = floorlog 2 (nat \<lfloor>X\<rfloor>) - 53 in of_int (rne (X / 2 ^ s)) * 2 ^ s)"

definition emin :: nat where
  "emin = 1074"

definition binary64 :: "rat \<Rightarrow> rat" where
  "binary64 x = sgn x * round53 (\<bar>x\<bar> * 2 ^ emin) / 2 ^ emin"

text \<open>\<open>a + b\<close> for two numbers that hold the non-negative integers \<open>a\<close> and \<open>b\<close>.\<close>

definition js_add :: "nat \<Rightarrow> nat \<Rightarrow> nat" where
  "js_add a b = nat \<lfloor>binary64 (of_nat a + of_nat b)\<rfloor>"

subsection \<open>Servers and membership\<close>

definition addMemberToServer :: "db \<Rightarrow> string \<Rightarrow> nat \<Rightarrow> db" where
  "addMemberToServer d uname sid =
     (let user = tbl_get user_id uname (users_table d);
          server = tbl_get server_id sid (servers_table d)
      in case user of
           None \<Rightarrow> d
         | Some u \<Rightarrow>
             if server = None \<or> contains (servers u) sid then d
             else d\<lparr>users_table :=
                      tbl_update user_id uname (\<lambda>row. row\<lparr>servers := reql_append (servers row) sid\<rparr>)
                        (users_table d)\<rparr>)"

definition removeMemberFromServer :: "db \<Rightarrow> string \<Rightarrow> nat \<Rightarrow> db" where
  "removeMemberFromServer d uname sid =
     d\<lparr>users_table :=
         tbl_update user_id uname (\<lambda>row. row\<lparr>servers := reql_difference (servers row) [sid]\<rparr>)
           (users_table d)\<rparr>"

text \<open>
  \<open>getServer\<close> merges into the server document the array of the users whose \<open>servers\<close>
  contain its id, without their private fields. \<open>merge\<close> on the \<open>null\<close> of a missing
  document is a ReQL error.
\<close>

definition members_of :: "db \<Rightarrow> nat \<Rightarrow> member list" where
  "members_of d sid =
     map member.truncate (filter (\<lambda>u. contains (servers u) sid) (users_table d))"

definition getServer :: "db \<Rightarrow> nat \<Rightarrow> error + joined_server" where
  "getServer d sid =
     (case tbl_get server_id sid (servers_table d) of
        None \<Rightarrow> Inl ReqlNonExistenceError
      | Some s \<Rightarrow> Inr (server.extend s (joined_server.fields (members_of d sid))))"

definition createServer ::
  "db \<Rightarrow> string \<Rightarrow> string option \<Rightarrow> string \<Rightarrow> db \<times> (error + joined_server)" where
  "createServer d nm icon own =
     (let largestId = (case reql_max (servers_table d) of Inl e \<Rightarrow> 0 | Inr s \<Rightarrow> server_id s);
          sid = js_add largestId 1;
          server = \<lparr>server_id = sid, name = nm, iconUrl = icon, owner = own\<rparr>;
          d1 = d\<lparr>servers_table := tbl_insert server_id server (servers_table d)\<rparr>;
          d2 = addMemberToServer d1 own sid
      in (d2, getServer d2 sid))"

definition deleteServer :: "db \<Rightarrow> nat \<Rightarrow> db" where
  "deleteServer d sid =
     (let d1 = d\<lparr>servers_table := tbl_delete server_id sid (servers_table d)\<rparr>;
          d2 = d1\<lparr>invites_table := filter (\<lambda>i. serverId i \<noteq> sid) (invites_table d1)\<rparr>
      in d2\<lparr>users_table :=
              map (\<lambda>u. if contains (servers u) sid
                        then u\<lparr>servers := reql_difference (servers u) [sid]\<rparr> else u)
                (users_table d2)\<rparr>)"

definition deleteUser :: "db \<Rightarrow> string \<Rightarrow> db" where
  "deleteUser d uid = d\<lparr>users_table := tbl_delete user_id uid (users_table d)\<rparr>"

subsection \<open>Invites\<close>

text \<open>\<open>shortId()\<close> is the library's generator; the code it returns is an argument here.\<close>

definition generateInvite :: "db \<Rightarrow> string \<Rightarrow> nat \<Rightarrow> string \<Rightarrow> db \<times> string" where
  "generateInvite d invite sid who =
     (d\<lparr>invites_table :=
          tbl_insert code \<lparr>code = invite, serverId = sid, inviter = who\<rparr> (invites_table d)\<rparr>,
      invite)"

definition getInvite :: "db \<Rightarrow> string \<Rightarrow> invite option" where
  "getInvite d c = tbl_get code c (invites_table d)"

subsection \<open>Strings and numbers\<close>

text \<open>
  \<open>s.split(c)\<close> for a one-character separator: the segments between the separators, so
  the result is never empty (\<open>''.split(':')\<close> is \<open>['']\<close>).
\<close>

fun split :: "char \<Rightarrow> string \<Rightarrow> string list" where
  "split c [] = [[]]"
| "split c (x # xs) =
     (if x = c then [] # split c xs
      else (case split c xs of [] \<Rightarrow> [[x]] | y # ys \<Rightarrow> (x # y) # ys))"

text \<open>The array pattern \<open>const [a, b] = arr\<close> binds \<open>undefined\<close> where \<open>arr\<close> is too short.\<close>

definition element :: "'a list \<Rightarrow> nat \<Rightarrow> 'a js_field" where
  "element xs i = (if i < length xs then Val (xs ! i) else Undefined)"

text \<open>\<open>n.toString()\<close> of a non-negative integer and \<open>s.padStart(n, c)\<close>.\<close>

definition digit_char :: "nat \<Rightarrow> char" where
  "digit_char n = ''0123456789'' ! n"

fun toString :: "nat \<Rightarrow> string" where
  "toString n =
     (if n < 10 then [digit_char n] else toString (n div 10) @ [digit_char (n mod 10)])"

declare toString.simps [simp del]

definition padStart :: "nat \<Rightarrow> char \<Rightarrow> string \<Rightarrow> string" where
  "padStart n c s = replicate (n - length s) c @ s"

subsection \<open>Discriminators\<close>

text \<open>
  \<open>Math.random()\<close> is a sequence \<open>rnd\<close> of binary64 values in \<open>[0, 1)\<close> and a position
  in it; a function that draws returns the new position. \<open>draw r\<close> is the loop's
  candidate for the random value \<open>r\<close>: the product and the sum of
  \<open>Math.floor(Math.random() * 9999 + 1)\<close> are each rounded. \<open>taken\<close> is the loop's test
  \<open>filter({ username, discriminator }).count().gt(0)\<close>.
\<close>

definition draw :: "rat \<Rightarrow> string" where
  "draw r = padStart 4 (CHR ''0'') (toString (nat \<lfloor>binary64 (binary64 (r * 9999) + 1)\<rfloor>))"

definition taken :: "user list \<Rightarrow> string \<Rightarrow> string \<Rightarrow> bool" where
  "taken us un dc = (length (filter (\<lambda>u. username u = un \<and> discriminator u = dc) us) > 0)"

partial_function (option) rollDiscriminator ::
  "(nat \<Rightarrow> rat) \<Rightarrow> user list \<Rightarrow> string \<Rightarrow> nat \<Rightarrow> (string \<times> nat) option" where
  "rollDiscriminator rnd us un i =
     (let dc = draw (rnd i)
      in if \<not> taken us un dc then Some (dc, Suc i)
         else rollDiscriminator rnd us un (Suc i))"

subsection \<open>Accounts\<close>

text \<open>
  \<open>hash\<close> is bcrypt's \<open>hash(_, 10)\<close> and \<open>new_id\<close> the value of \<open>idGenerator.gen()\<close>; both
  come from libraries and are arguments. The result is \<open>None\<close> when the call never
  returns, \<open>Some (Inl e)\<close> when it throws \<open>e\<close>, and otherwise the new store, the tag and
  the position in the random sequence.
\<close>

definition createUser ::
  "(string \<Rightarrow> string) \<Rightarrow> (nat \<Rightarrow> rat) \<Rightarrow> nat \<Rightarrow> db \<Rightarrow> string \<Rightarrow> string \<Rightarrow> string
     \<Rightarrow> (error + db \<times> string \<times> nat) option" where
  "createUser hash rnd i d new_id un pw =
     (case rollDiscriminator rnd (users_table d) un i of
        None \<Rightarrow> None
      | Some (dc, j) \<Rightarrow>
          if dc = [] then
            Some (Inl (Error ''Cannot generate unique discrim. Try a different username.''))
          else
            Some (Inr (d\<lparr>users_table :=
                          tbl_insert user_id
                            \<lparr>user_id = new_id, username = un, discriminator = dc,
                             avatarUrl = Undefined, online = False, admin = Undefined,
                             password = hash pw, servers = []\<rparr>
                            (users_table d)\<rparr>,
                       un @ ''#'' @ dc, j)))"

text \<open>
  The \<open>update\<close> object of \<open>updateUser\<close> is the function that writes its fields into a
  row: \<open>username\<close> and \<open>discriminator\<close> always, the others as the three tests allow.
\<close>

definition updateUser ::
  "(string \<Rightarrow> string) \<Rightarrow> (nat \<Rightarrow> rat) \<Rightarrow> nat \<Rightarrow> db \<Rightarrow> string \<Rightarrow> string
     \<Rightarrow> string js_field \<Rightarrow> string js_field \<Rightarrow> bool js_field \<Rightarrow> (db \<times> string \<times> nat) option" where
  "updateUser hash rnd i d uid un pw avatar adm =
     (case rollDiscriminator rnd (users_table d) un i of
        None \<Rightarrow> None
      | Some (dc, j) \<Rightarrow>
          (let update0 = (\<lambda>row::user. row\<lparr>username := un, discriminator := dc\<rparr>);
               update1 = (if truthy pw
                          then (\<lambda>row. (update0 row)\<lparr>password := hash (string_of pw)\<rparr>)
                          else update0);
               update2 = (if avatar \<noteq> Undefined then (\<lambda>row. (update1 row)\<lparr>avatarUrl := avatar\<rparr>)
                          else update1);
               update3 = (case adm of
                            Val b \<Rightarrow> (\<lambda>row. (update2 row)\<lparr>admin := Val b\<rparr>)
                          | _ \<Rightarrow> update2)
           in Some (d\<lparr>users_table := tbl_update user_id uid update3 (users_table d)\<rparr>,
                    un @ ''#'' @ dc, j)))"

subsection \<open>Authentication\<close>

text \<open>
  \<open>decode\<close> is \<open>Buffer.from(_, 'base64').toString()\<close> and \<open>compare\<close> is bcrypt's; the header
  is \<open>None\<close> when the request carries none.
\<close>

definition authenticate ::
  "(string \<Rightarrow> string) \<Rightarrow> (string \<Rightarrow> string \<Rightarrow> bool) \<Rightarrow> db \<Rightarrow> string option
     \<Rightarrow> error + user option" where
  "authenticate decode compare d auth =
     (case auth of
        None \<Rightarrow> Inr None
      | Some a \<Rightarrow>
          if a = [] then Inr None
          else
            (let type = element (split (CHR '' '') a) 0;
                 creds = element (split (CHR '' '') a) 1
             in if Val ''Basic'' \<noteq> type \<or> \<not> truthy creds then Inr None
                else
                  (let uname = element (split (CHR '':'') (decode (string_of creds))) 0;
                       pword = element (split (CHR '':'') (decode (string_of creds))) 1;
                       nm = element (if truthy uname then split (CHR ''#'') (string_of uname) else []) 0;
                       dc = element (if truthy uname then split (CHR ''#'') (string_of uname) else []) 1
                   in if \<not> truthy uname \<or> \<not> truthy pword \<or> \<not> truthy nm \<or> \<not> truthy dc
                      then Inr None
                      else
                        (case reql_default None
                                (map_sum (\<lambda>e. e) Some
                                   (reql_nth0
                                      (filter (\<lambda>u. username u = string_of nm
                                                  \<and> discriminator u = string_of dc)
                                         (users_table d)))) of
                           Inl e \<Rightarrow> Inl e
                         | Inr None \<Rightarrow> Inr None
                         | Inr (Some u) \<Rightarrow>
                             if \<not> compare (string_of pword) (password u) then Inr None
                             else Inr (Some u)))))"

text \<open>
  For evaluating concrete requests: base64 over the standard alphabet for payloads of
  7-bit characters (characters outside the alphabet are skipped and \<open>=\<close> ends the
  input, as Node's decoder does), and a stand-in for bcrypt that keeps what the
  functions above rely on, namely that \<open>compare p (hash q)\<close> holds exactly when
  \<open>p = q\<close>. The theorems about \<open>authenticate\<close> hold for every \<open>decode\<close> and \<open>compare\<close>.
\<close>

fun index_of :: "char \<Rightarrow> string \<Rightarrow> nat option" where
  "index_of c [] = None"
| "index_of c (x # xs) = (if x = c then Some 0 else map_option Suc (index_of c xs))"

fun sextets :: "string \<Rightarrow> nat list" where
  "sextets [] = []"
| "sextets (c # cs) =
     (if c = CHR ''='' then []
      else (case index_of c ''ABCDEFGHIJKLMNOPQRSTUVWXYZabcdefghijklmnopqrstuvwxyz0123456789+/'' of
              None \<Rightarrow> sextets cs
            | Some v \<Rightarrow> v # sextets cs))"

fun octets :: "nat list \<Rightarrow> nat list" where
  "octets (a # b # c # d # rest) =
     (let n = ((a * 64 + b) * 64 + c) * 64 + d
      in (n div 65536) # (n div 256 mod 256) # (n mod 256) # octets rest)"
| "octets [a, b, c] = (let n = (a * 64 + b) * 64 + c in [n div 1024, n div 4 mod 256])"
| "octets [a, b] = [(a * 64 + b) div 16]"
| "octets _ = []"

definition from_base64 :: "string \<Rightarrow> string" where
  "from_base64 s = map char_of (octets (sextets s))"

definition plain_hash :: "string \<Rightarrow> string" where
  "plain_hash p = ''$plain$'' @ p"

definition plain_compare :: "string \<Rightarrow> string \<Rightarrow> bool" where
  "plain_compare p h = (h = plain_hash p)"

subsection \<open>Notions used in the statements\<close>

text \<open>The number a string of decimal digits denotes.\<close>

definition numeric_value :: "string \<Rightarrow> nat" where
  "numeric_value s = foldl (\<lambda>a c. 10 * a + (of_char c - 48)) 0 s"

text \<open>
  What is assumed of \<open>Math.random()\<close>: its values are binary64 values (rounding leaves
  them as they are) in \<open>[0, 1)\<close>, and from position \<open>i\<close> on each of the 9999 values of
  \<open>Math.floor(Math.random() * 9999 + 1)\<close>, computed as the code computes it, is still to
  come.
\<close>

definition unit_interval :: "(nat \<Rightarrow> rat) \<Rightarrow> bool" where
  "unit_interval rnd = (\<forall>k. binary64 (rnd k) = rnd k \<and> 0 \<le> rnd k \<and> rnd k < 1)"

definition draws_every_value :: "(nat \<Rightarrow> rat) \<Rightarrow> nat \<Rightarrow> bool" where
  "draws_every_value rnd i =
     (\<forall>v \<in> {1..9999}. \<exists>k\<ge>i. nat \<lfloor>binary64 (binary64 (rnd k * 9999) + 1)\<rfloor> = v)"

text \<open>The namespace of a username is full when its accounts hold all of 0001 to 9999.\<close>

definition namespace_full :: "user list \<Rightarrow> string \<Rightarrow> bool" where
  "namespace_full us un =
     list_all (\<lambda>v. taken us un (padStart 4 (CHR ''0'') (toString v))) [1..<10000]"

text \<open>The ids on which \<open>largestId + 1\<close> is exact: those below \<open>2^53\<close>.\<close>

definition ids_exact :: "db \<Rightarrow> bool" where
  "ids_exact d = list_all (\<lambda>s. server_id s < 2 ^ 53) (servers_table d)"

text \<open>
  Referential integrity of the membership sets: every server id an account lists is the
  id of a server in the table. It holds of the empty store and the operations modelled
  here keep it (see \<open>membership_consistent_kept\<close>).
\<close>

definition membership_consistent :: "db \<Rightarrow> bool" where
  "membership_consistent d =
     list_all (\<lambda>u. list_all (\<lambda>k. tbl_get server_id k (servers_table d) \<noteq> None) (servers u))
       (users_table d)"

subsection \<open>Concrete stores for the instances\<close>

definition alice :: user where
  "alice = \<lparr>user_id = ''7'', username = ''alice'', discriminator = ''0001'',
            avatarUrl = Undefined, online = False, admin = Undefined,
            password = plain_hash ''secret'', servers = []\<rparr>"

definition bob :: user where
  "bob = \<lparr>user_id = ''8'', username = ''bob'', discriminator = ''0420'',
          avatarUrl = Val ''http://x/b.png'', online = True, admin = Val False,
          password = plain_hash ''hunter22'', servers = [1, 2]\<rparr>"

definition guild :: "nat \<Rightarrow> server" where
  "guild k = \<lparr>server_id = k, name = ''Guild'', iconUrl = None, owner = ''8''\<rparr>"

definition store0 :: db where
  "store0 = \<lparr>users_table = [alice], servers_table = [], invites_table = []\<rparr>"

definition store1 :: db where
  "store1 = \<lparr>users_table = [alice, bob], servers_table = [guild 1, guild 2],
             invites_table = [\<lparr>code = ''Hk3vWq'', serverId = 2, inviter = ''8''\<rparr>,
                              \<lparr>code = ''B1xZ9p'', serverId = 1, inviter = ''8''\<rparr>]\<rparr>"

text \<open>A store whose account \<open>alice#0001\<close> has the password \<open>pa:ss\<close>.\<close>

definition store2 :: db where
  "store2 = \<lparr>users_table = [alice\<lparr>password := plain_hash ''pa:ss''\<rparr>], servers_table = [],
             invites_table = []\<rparr>"

text \<open>
  A store whose one server has the id \<open>2^53\<close>, and a store without servers in which
  \<open>bob\<close> still lists the servers 1 and 2.
\<close>

definition store_big :: db where
  "store_big = \<lparr>users_table = [alice], servers_table = [guild (2 ^ 53)], invites_table = []\<rparr>"

definition store_stale :: db where
  "store_stale = \<lparr>users_table = [bob], servers_table = [], invites_table = []\<rparr>"

text \<open>
  A random sequence of binary64 values that runs through the multiples of \<open>2^-14\<close> in
  \<open>[0, 1)\<close> in turn, and 9999 accounts named \<open>bob\<close> that hold every discriminator.
\<close>

definition cycle :: "nat \<Rightarrow> rat" where
  "cycle k = of_nat (k mod 16384) / 2 ^ 14"

definition crowd :: "user list" where
  "crowd = map (\<lambda>v. \<lparr>user_id = toString v, username = ''bob'',
                      discriminator = padStart 4 (CHR ''0'') (toString v),
                      avatarUrl = Undefined, online = False, admin = Undefined,
                      password = plain_hash ''hunter22'', servers = []\<rparr>) [1..<10000]"

section \<open>Properties\<close>

subsection \<open>Rounding\<close>

lemma floor_rat_numeral: "\<lfloor>(numeral a :: rat) / numeral b\<rfloor> = numeral a div numeral b"
  using floor_divide_of_int_eq [of "numeral a" "numeral b", where ?'a = rat] by simp

lemma rne_lower: "\<lfloor>y\<rfloor> \<le> rne y"
  by (simp add: rne_def Let_def)

lemma rne_upper: "rne y \<le> \<lfloor>y\<rfloor> + 1"
  by (simp add: rne_def Let_def)

lemma rne_of_int: "rne (of_int n) = n"
  by (simp add: rne_def Let_def)

lemma rne_ge: "of_int n \<le> y \<Longrightarrow> n \<le> rne y"
proof -
  assume "of_int n \<le> y"
  then have "n \<le> \<lfloor>y\<rfloor>" by (subst le_floor_iff)
  with rne_lower [of y] show ?thesis by linarith
qed

lemma rne_le: "y \<le> of_int n \<Longrightarrow> rne y \<le> n"
proof (cases "y = of_int n")
  case True
  then show ?thesis by (simp add: rne_of_int)
next
  case False
  assume "y \<le> of_int n"
  with False have "y < of_int n" by simp
  then have "\<lfloor>y\<rfloor> < n" by (subst floor_less_iff)
  with rne_upper [of y] show ?thesis by linarith
qed

lemma rne_below_half: "y < of_int n + 1 / 2 \<Longrightarrow> rne y \<le> n"
proof (cases "\<lfloor>y\<rfloor> < n")
  case True
  with rne_upper [of y] show ?thesis by simp
next
  case False
  assume h: "y < of_int n + 1 / 2"
  then have "y < of_int (n + 1)" by simp
  then have "\<lfloor>y\<rfloor> < n + 1" by (subst floor_less_iff)
  with False have f: "\<lfloor>y\<rfloor> = n" by linarith
  with h have "y - of_int \<lfloor>y\<rfloor> < 1 / 2" by simp
  then show ?thesis using f by (simp add: rne_def Let_def)
qed

lemma rne_mono: "x \<le> y \<Longrightarrow> rne x \<le> rne y"
proof (cases "\<lfloor>x\<rfloor> < \<lfloor>y\<rfloor>")
  case True
  with rne_upper [of x] rne_lower [of y] show ?thesis by simp
next
  case False
  assume xy: "x \<le> y"
  then have "\<lfloor>x\<rfloor> \<le> \<lfloor>y\<rfloor>" by (rule floor_mono)
  with False have f: "\<lfloor>x\<rfloor> = \<lfloor>y\<rfloor>" by simp
  then have "x - of_int \<lfloor>x\<rfloor> \<le> y - of_int \<lfloor>y\<rfloor>" using xy by simp
  then show ?thesis using f by (auto simp: rne_def Let_def)
qed


lemma floorlog_floor_upper:
  fixes X :: rat
  assumes "0 \<le> X"
  shows "X < 2 ^ floorlog 2 (nat \<lfloor>X\<rfloor>)"
proof -
  have "nat \<lfloor>X\<rfloor> < 2 ^ floorlog 2 (nat \<lfloor>X\<rfloor>)"
  proof (cases "nat \<lfloor>X\<rfloor> = 0")
    case True
    then show ?thesis by simp
  next
    case False
    then show ?thesis using floorlog_bounds [of "nat \<lfloor>X\<rfloor>" 2] by simp
  qed
  then have "int (nat \<lfloor>X\<rfloor>) < int (2 ^ floorlog 2 (nat \<lfloor>X\<rfloor>))" by (rule iffD2 [OF of_nat_less_iff])
  moreover have "int (nat \<lfloor>X\<rfloor>) = \<lfloor>X\<rfloor>" using assms by simp
  ultimately have "\<lfloor>X\<rfloor> < 2 ^ floorlog 2 (nat \<lfloor>X\<rfloor>)" by simp
  then have "X < of_int (2 ^ floorlog 2 (nat \<lfloor>X\<rfloor>))" by (subst (asm) floor_less_iff)
  then show ?thesis by simp
qed

lemma floorlog_floor_lower:
  fixes X :: rat
  assumes "0 < floorlog 2 (nat \<lfloor>X\<rfloor>)"
  shows "2 ^ (floorlog 2 (nat \<lfloor>X\<rfloor>) - 1) \<le> X"
proof -
  have pos: "0 < nat \<lfloor>X\<rfloor>"
  proof (rule ccontr)
    assume "\<not> 0 < nat \<lfloor>X\<rfloor>"
    then have "floorlog 2 (nat \<lfloor>X\<rfloor>) = 0" by (simp add: floorlog_def)
    with assms show False by simp
  qed
  then have "2 ^ (floorlog 2 (nat \<lfloor>X\<rfloor>) - 1) \<le> nat \<lfloor>X\<rfloor>"
    using floorlog_bounds [of "nat \<lfloor>X\<rfloor>" 2] by simp
  then have "int (2 ^ (floorlog 2 (nat \<lfloor>X\<rfloor>) - 1)) \<le> int (nat \<lfloor>X\<rfloor>)" by (rule iffD2 [OF of_nat_le_iff])
  moreover have "int (nat \<lfloor>X\<rfloor>) = \<lfloor>X\<rfloor>" using pos by simp
  ultimately have "2 ^ (floorlog 2 (nat \<lfloor>X\<rfloor>) - 1) \<le> \<lfloor>X\<rfloor>" by simp
  then have "of_int (2 ^ (floorlog 2 (nat \<lfloor>X\<rfloor>) - 1)) \<le> X" by (subst (asm) le_floor_iff)
  then show ?thesis by simp
qed

lemma round53_binade:
  fixes X :: rat
  assumes "2 ^ (52 + s) \<le> X" and "X < 2 ^ (53 + s)"
  shows "round53 X = of_int (rne (X / 2 ^ s)) * 2 ^ s"
proof -
  have "of_int (2 ^ (52 + s)) \<le> X" using assms(1) by simp
  then have "(2::int) ^ (52 + s) \<le> \<lfloor>X\<rfloor>" by (subst le_floor_iff)
  then have lo: "(2::nat) ^ (52 + s) \<le> nat \<lfloor>X\<rfloor>" by (simp add: le_nat_iff)
  have "X < of_int (2 ^ (53 + s))" using assms(2) by simp
  then have "\<lfloor>X\<rfloor> < 2 ^ (53 + s)" by (subst floor_less_iff)
  then have hi: "nat \<lfloor>X\<rfloor> < 2 ^ (53 + s)" by (simp add: nat_less_iff)
  have "floorlog 2 (nat \<lfloor>X\<rfloor>) \<le> 53 + s" using hi by (intro floorlog_leI) simp_all
  moreover have "Suc (52 + s) \<le> floorlog 2 (nat \<lfloor>X\<rfloor>)" using lo by (intro floorlog_ge_SucI) simp_all
  ultimately have "floorlog 2 (nat \<lfloor>X\<rfloor>) - 53 = s" by simp
  then show ?thesis by (simp add: round53_def Let_def)
qed

lemma round53_exact:
  assumes "n < 2 ^ 53"
  shows "round53 (of_nat (n * 2 ^ m)) = of_nat (n * 2 ^ m)"
proof -
  define s where "s = floorlog 2 (n * 2 ^ m) - 53"
  have "n * 2 ^ m < 2 ^ 53 * 2 ^ m" using assms by simp
  then have "n * 2 ^ m < 2 ^ (53 + m)" by (simp add: power_add)
  then have "floorlog 2 (n * 2 ^ m) \<le> 53 + m" by (intro floorlog_leI) simp_all
  then have sm: "s \<le> m" by (simp add: s_def)
  then have split: "(2::nat) ^ m = 2 ^ (m - s) * 2 ^ s" by (simp flip: power_add)
  have "(of_nat (n * 2 ^ m) :: rat) / 2 ^ s = of_nat (n * 2 ^ (m - s))"
    by (subst split) simp
  then have "(of_nat (n * 2 ^ m) :: rat) / 2 ^ s = of_int (int (n * 2 ^ (m - s)))" by simp
  then have "rne ((of_nat (n * 2 ^ m) :: rat) / 2 ^ s) = int (n * 2 ^ (m - s))"
    by (simp only: rne_of_int)
  moreover have "nat \<lfloor>(of_nat (n * 2 ^ m) :: rat)\<rfloor> = n * 2 ^ m" by (simp only: floor_of_nat nat_int)
  ultimately have "round53 (of_nat (n * 2 ^ m)) = of_int (int (n * 2 ^ (m - s))) * 2 ^ s"
    unfolding round53_def Let_def s_def by simp
  also have "\<dots> = of_nat (n * (2 ^ (m - s) * 2 ^ s))" by simp
  also have "\<dots> = of_nat (n * 2 ^ m)" by (simp only: split)
  finally show ?thesis .
qed

lemma round53_mono:
  assumes "0 \<le> X" and "X \<le> Y"
  shows "round53 X \<le> round53 Y"
proof -
  define bX where "bX = floorlog 2 (nat \<lfloor>X\<rfloor>)"
  define bY where "bY = floorlog 2 (nat \<lfloor>Y\<rfloor>)"
  define sX where "sX = bX - 53"
  define sY where "sY = bY - 53"
  have rX: "round53 X = of_int (rne (X / 2 ^ sX)) * 2 ^ sX"
    by (simp add: round53_def Let_def sX_def bX_def)
  have rY: "round53 Y = of_int (rne (Y / 2 ^ sY)) * 2 ^ sY"
    by (simp add: round53_def Let_def sY_def bY_def)
  have "nat \<lfloor>X\<rfloor> \<le> nat \<lfloor>Y\<rfloor>" using assms(2) by (intro nat_mono floor_mono)
  then have b: "bX \<le> bY" unfolding bX_def bY_def by (rule floorlog_mono)
  show ?thesis
  proof (cases "sX = sY")
    case True
    have "X / 2 ^ sY \<le> Y / 2 ^ sY" using assms(2) by (simp add: divide_right_mono)
    then have "rne (X / 2 ^ sY) \<le> rne (Y / 2 ^ sY)" by (rule rne_mono)
    then have "(of_int (rne (X / 2 ^ sY)) :: rat) \<le> of_int (rne (Y / 2 ^ sY))"
      by (rule iffD2 [OF of_int_le_iff])
    then have "of_int (rne (X / 2 ^ sY)) * 2 ^ sY \<le> (of_int (rne (Y / 2 ^ sY)) :: rat) * 2 ^ sY"
      by (intro mult_right_mono) simp_all
    then show ?thesis unfolding rX rY True .
  next
    case False
    with b have lt: "sX < sY" unfolding sX_def sY_def by linarith
    then have eY: "bY = 53 + sY" unfolding sY_def by linarith
    have eX: "bX \<le> 53 + sX" unfolding sX_def by linarith
    have "X < 2 ^ bX" unfolding bX_def using assms(1) by (rule floorlog_floor_upper)
    also have "(2::rat) ^ bX \<le> 2 ^ (53 + sX)" using eX by (intro power_increasing) simp_all
    also have "(2::rat) ^ (53 + sX) = 2 ^ 53 * 2 ^ sX" by (rule power_add)
    finally have "X / 2 ^ sX < 2 ^ 53" by (subst divide_less_eq) simp
    then have "X / 2 ^ sX \<le> of_int (2 ^ 53)" by simp
    then have "rne (X / 2 ^ sX) \<le> 2 ^ 53" by (rule rne_le)
    then have "(of_int (rne (X / 2 ^ sX)) :: rat) \<le> of_int (2 ^ 53)"
      by (rule iffD2 [OF of_int_le_iff])
    then have "of_int (rne (X / 2 ^ sX)) * 2 ^ sX \<le> (of_int (2 ^ 53) :: rat) * 2 ^ sX"
      by (intro mult_right_mono) simp_all
    also have "(of_int (2 ^ 53) :: rat) * 2 ^ sX = 2 ^ (53 + sX)" by (simp add: power_add)
    finally have up: "round53 X \<le> 2 ^ (53 + sX)" unfolding rX .
    have "0 < bY" using eY by simp
    then have "2 ^ (bY - 1) \<le> Y" unfolding bY_def by (rule floorlog_floor_lower)
    moreover have "bY - 1 = 52 + sY" using eY by linarith
    ultimately have "(2::rat) ^ (52 + sY) \<le> Y" by (simp only:)
    moreover have "(2::rat) ^ (52 + sY) = 2 ^ 52 * 2 ^ sY" by (rule power_add)
    ultimately have "(2::rat) ^ 52 * 2 ^ sY \<le> Y" by (simp only:)
    then have "2 ^ 52 \<le> Y / 2 ^ sY" by (subst le_divide_eq) simp
    then have "of_int (2 ^ 52) \<le> Y / 2 ^ sY" by simp
    then have "2 ^ 52 \<le> rne (Y / 2 ^ sY)" by (rule rne_ge)
    then have "(of_int (2 ^ 52) :: rat) \<le> of_int (rne (Y / 2 ^ sY))"
      by (rule iffD2 [OF of_int_le_iff])
    then have "(of_int (2 ^ 52) :: rat) * 2 ^ sY \<le> of_int (rne (Y / 2 ^ sY)) * 2 ^ sY"
      by (intro mult_right_mono) simp_all
    moreover have "(of_int (2 ^ 52) :: rat) * 2 ^ sY = 2 ^ (52 + sY)" by (simp add: power_add)
    ultimately have lo: "2 ^ (52 + sY) \<le> round53 Y" unfolding rY by (simp only:)
    have "53 + sX \<le> 52 + sY" using lt by simp
    then have "(2::rat) ^ (53 + sX) \<le> 2 ^ (52 + sY)" by (intro power_increasing) simp_all
    with up lo show ?thesis by linarith
  qed
qed


lemma round53_0: "round53 0 = 0"
  using round53_exact [of 0 0] by simp

lemma binary64_nonneg: "0 \<le> x \<Longrightarrow> binary64 x = round53 (x * 2 ^ emin) / 2 ^ emin"
  by (cases "x = 0") (simp_all add: binary64_def round53_0)

lemma binary64_mono:
  assumes "0 \<le> x" and "x \<le> y"
  shows "binary64 x \<le> binary64 y"
proof -
  have "round53 (x * 2 ^ emin) \<le> round53 (y * 2 ^ emin)"
    using assms by (intro round53_mono) simp_all
  then show ?thesis
    using assms by (simp add: binary64_nonneg divide_right_mono)
qed

lemma binary64_exact:
  assumes "n < 2 ^ 53" and "j \<le> emin"
  shows "binary64 (of_nat n / 2 ^ j) = of_nat n / 2 ^ j"
proof -
  have split: "(2::rat) ^ emin = 2 ^ (emin - j) * 2 ^ j"
    using assms(2) by (simp flip: power_add)
  have "(of_nat n :: rat) / 2 ^ j * 2 ^ emin = of_nat (n * 2 ^ (emin - j))"
    by (subst split) simp
  then have "round53 ((of_nat n :: rat) / 2 ^ j * 2 ^ emin) = of_nat (n * 2 ^ (emin - j))"
    using round53_exact [OF assms(1)] by (simp only:)
  then have "binary64 (of_nat n / 2 ^ j) = of_nat (n * 2 ^ (emin - j)) / 2 ^ emin"
    by (simp add: binary64_nonneg)
  also have "\<dots> = of_nat n / 2 ^ j"
    by (subst split) simp
  finally show ?thesis .
qed

lemma binary64_exact_int:
  assumes "n < 2 ^ 53"
  shows "binary64 (of_nat (n * 2 ^ a)) = of_nat (n * 2 ^ a)"
proof -
  have "(of_nat (n * 2 ^ a) :: rat) * 2 ^ emin = of_nat (n * 2 ^ (a + emin))"
    by (simp add: power_add)
  then have "round53 ((of_nat (n * 2 ^ a) :: rat) * 2 ^ emin) = of_nat (n * 2 ^ (a + emin))"
    using round53_exact [OF assms] by (simp only:)
  then have "binary64 (of_nat (n * 2 ^ a)) = of_nat (n * 2 ^ (a + emin)) / 2 ^ emin"
    by (simp only: binary64_nonneg of_nat_0_le_iff)
  also have "\<dots> = of_nat (n * 2 ^ a)"
    by (simp add: power_add)
  finally show ?thesis .
qed

lemma binary64_of_nat: "n \<le> 2 ^ 53 \<Longrightarrow> binary64 (of_nat n) = of_nat n"
proof (cases "n < 2 ^ 53")
  case True
  then show ?thesis using binary64_exact_int [of n 0] by simp
next
  case False
  assume "n \<le> 2 ^ 53"
  with False have "n = 2 ^ 52 * 2 ^ 1" by simp
  then show ?thesis using binary64_exact_int [of "2 ^ 52" 1] by simp
qed

text \<open>In the binade whose grid is \<open>2^s\<close> smallest units.\<close>

lemma binary64_binade:
  assumes "0 \<le> x" and "2 ^ (52 + s) \<le> x * 2 ^ emin" and "x * 2 ^ emin < 2 ^ (53 + s)"
  shows "binary64 x = of_int (rne (x * 2 ^ emin / 2 ^ s)) * 2 ^ s / 2 ^ emin"
  using assms by (simp only: binary64_nonneg round53_binade)


lemma binary64_grid:
  assumes "2 ^ 52 \<le> x * 2 ^ j" and "x * 2 ^ j < 2 ^ 53" and "j \<le> emin"
  shows "binary64 x = of_int (rne (x * 2 ^ j)) / 2 ^ j"
proof -
  define s where "s = emin - j"
  have e: "(2::rat) ^ emin = 2 ^ j * 2 ^ s"
    using assms(3) by (simp add: s_def flip: power_add)
  have x0: "0 \<le> x"
  proof -
    have "(0::rat) \<le> 2 ^ 52" by simp
    also note assms(1)
    finally have "0 \<le> x * 2 ^ j / 2 ^ j" by (intro divide_nonneg_pos) simp_all
    then show ?thesis by simp
  qed
  have "2 ^ 52 * 2 ^ s \<le> x * 2 ^ j * (2::rat) ^ s"
    using assms(1) by (intro mult_right_mono) simp_all
  then have lo: "2 ^ (52 + s) \<le> x * 2 ^ emin"
    by (simp add: e power_add mult.assoc)
  have "x * 2 ^ j * (2::rat) ^ s < 2 ^ 53 * 2 ^ s"
    using assms(2) by (intro mult_strict_right_mono) simp_all
  then have hi: "x * 2 ^ emin < 2 ^ (53 + s)"
    by (simp add: e power_add mult.assoc)
  have "x * 2 ^ emin / 2 ^ s = x * 2 ^ j"
    by (simp add: e)
  then have "binary64 x = of_int (rne (x * 2 ^ j)) * 2 ^ s / 2 ^ emin"
    using binary64_binade [OF x0 lo hi] by (simp only:)
  also have "\<dots> = of_int (rne (x * 2 ^ j)) / 2 ^ j"
    by (simp add: e)
  finally show ?thesis .
qed

lemma binary64_coarse:
  assumes "2 ^ 52 \<le> x / 2 ^ a" and "x / 2 ^ a < 2 ^ 53"
  shows "binary64 x = of_int (rne (x / 2 ^ a)) * 2 ^ a"
proof -
  have x0: "0 \<le> x"
  proof -
    have "(0::rat) \<le> 2 ^ 52" by simp
    also note assms(1)
    finally have "0 \<le> x / 2 ^ a * 2 ^ a" by (intro mult_nonneg_nonneg) simp_all
    then show ?thesis by simp
  qed
  have "2 ^ 52 * 2 ^ (emin + a) \<le> x / 2 ^ a * (2::rat) ^ (emin + a)"
    using assms(1) by (intro mult_right_mono) simp_all
  then have lo: "2 ^ (52 + (emin + a)) \<le> x * 2 ^ emin"
    by (simp add: power_add)
  have "x / 2 ^ a * (2::rat) ^ (emin + a) < 2 ^ 53 * 2 ^ (emin + a)"
    using assms(2) by (intro mult_strict_right_mono) simp_all
  then have hi: "x * 2 ^ emin < 2 ^ (53 + (emin + a))"
    by (simp add: power_add)
  have "x * 2 ^ emin / 2 ^ (emin + a) = x / 2 ^ a"
    by (simp add: power_add)
  then have "binary64 x = of_int (rne (x / 2 ^ a)) * 2 ^ (emin + a) / 2 ^ emin"
    using binary64_binade [OF x0 lo hi] by (simp only:)
  also have "\<dots> = of_int (rne (x / 2 ^ a)) * 2 ^ a"
    by (simp add: power_add)
  finally show ?thesis .
qed

lemma binary64_2_53_plus_1: "binary64 (2 ^ 53 + 1) = 2 ^ 53"
proof -
  have "binary64 (2 ^ 53 + 1) = of_int (rne ((2 ^ 53 + 1) / 2 ^ 1)) * 2 ^ 1"
    by (rule binary64_coarse) simp_all
  also have "rne ((2 ^ 53 + 1) / 2 ^ 1) = 2 ^ 52"
    by (simp add: rne_def Let_def floor_rat_numeral)
  finally show ?thesis by simp
qed

lemma below_one:
  assumes "binary64 r = r" and "0 \<le> r" and "r < 1"
  shows "r \<le> 1 - 1 / 2 ^ 53"
proof (rule ccontr)
  assume "\<not> r \<le> 1 - 1 / 2 ^ 53"
  then have gt: "1 - 1 / 2 ^ 53 < r" by simp
  then have lo: "2 ^ 53 - 1 < r * 2 ^ 53" by (simp add: field_simps)
  have hi: "r * 2 ^ 53 < 2 ^ 53" using assms(3) by simp
  have "binary64 r = of_int (rne (r * 2 ^ 53)) / 2 ^ 53"
    using lo hi by (intro binary64_grid) (simp_all add: emin_def)
  with assms(1) have "r * 2 ^ 53 = of_int (rne (r * 2 ^ 53))" by (simp add: field_simps)
  then obtain k :: int where k: "r * 2 ^ 53 = of_int k" ..
  with lo hi have "of_int (2 ^ 53 - 1) < (of_int k :: rat)" "(of_int k :: rat) < of_int (2 ^ 53)"
    by simp_all
  then have "2 ^ 53 - 1 < k" "k < 2 ^ 53" by (simp_all only: of_int_less_iff)
  then show False by simp
qed


lemma candidate_range:
  assumes "binary64 r = r" and "0 \<le> r" and "r < 1"
  shows "1 \<le> nat \<lfloor>binary64 (binary64 (r * 9999) + 1)\<rfloor>
       \<and> nat \<lfloor>binary64 (binary64 (r * 9999) + 1)\<rfloor> \<le> 9999"
proof -
  define y :: rat where "y = 9999 - 9999 / 2 ^ 53"
  have r: "r \<le> 1 - 1 / 2 ^ 53" using assms by (rule below_one)
  have "r * 9999 \<le> (1 - 1 / 2 ^ 53) * 9999" using r by (intro mult_right_mono) simp_all
  then have ry: "r * 9999 \<le> y" by (simp add: y_def)
  have r0: "0 \<le> r * 9999" using assms(2) by simp
  have "binary64 y = of_int (rne (y * 2 ^ 39)) / 2 ^ 39"
    by (rule binary64_grid) (simp_all add: y_def emin_def)
  moreover have "rne (y * 2 ^ 39) \<le> 9999 * 2 ^ 39 - 1"
    by (rule rne_below_half) (simp add: y_def)
  then have "(of_int (rne (y * 2 ^ 39)) :: rat) \<le> of_int (9999 * 2 ^ 39 - 1)"
    by (rule iffD2 [OF of_int_le_iff])
  then have "(of_int (rne (y * 2 ^ 39)) :: rat) / 2 ^ 39 \<le> of_int (9999 * 2 ^ 39 - 1) / 2 ^ 39"
    by (intro divide_right_mono) simp_all
  ultimately have "binary64 y \<le> of_int (9999 * 2 ^ 39 - 1) / 2 ^ 39" by (simp only:)
  moreover have "binary64 (r * 9999) \<le> binary64 y" using r0 ry by (rule binary64_mono)
  ultimately have b1: "binary64 (r * 9999) \<le> of_int (9999 * 2 ^ 39 - 1) / 2 ^ 39" by (rule order_trans [rotated])
  have "binary64 0 \<le> binary64 (r * 9999)" using r0 by (intro binary64_mono) simp_all
  moreover have "binary64 0 = 0" using binary64_of_nat [of 0] by simp
  ultimately have a1: "0 \<le> binary64 (r * 9999)" by simp
  define z where "z = binary64 (r * 9999) + 1"
  have z1: "1 \<le> z" using a1 by (simp add: z_def)
  have "z \<le> of_int (9999 * 2 ^ 39 - 1) / 2 ^ 39 + 1" using b1 by (simp add: z_def)
  also have "\<dots> = of_nat (10000 * 2 ^ 39 - 1) / 2 ^ 39" by simp
  finally have z2: "z \<le> of_nat (10000 * 2 ^ 39 - 1) / 2 ^ 39" .
  have "binary64 1 \<le> binary64 z" using z1 by (intro binary64_mono) simp_all
  moreover have "binary64 1 = 1" using binary64_of_nat [of 1] by simp
  ultimately have lo: "1 \<le> binary64 z" by simp
  have "binary64 z \<le> binary64 (of_nat (10000 * 2 ^ 39 - 1) / 2 ^ 39)"
    using z1 z2 by (intro binary64_mono) simp_all
  also have "\<dots> = of_nat (10000 * 2 ^ 39 - 1) / 2 ^ 39"
    by (rule binary64_exact) (simp_all add: emin_def)
  also have "\<dots> < 10000" by simp
  finally have hi: "binary64 z < 10000" .
  from lo have "1 \<le> \<lfloor>binary64 z\<rfloor>" by (subst le_floor_iff) simp
  moreover from hi have "\<lfloor>binary64 z\<rfloor> < 10000" by (subst floor_less_iff) simp
  ultimately show ?thesis unfolding z_def by linarith
qed

text \<open>The two roundings matter: here the exact value of the expression is 9997.\<close>

lemma candidate_rounds_up:
  "nat \<lfloor>binary64 (binary64 (4502698817364021 / 2 ^ 52 * 9999) + 1)\<rfloor> = 9998
   \<and> nat \<lfloor>(4502698817364021 / 2 ^ 52 * 9999 + 1 :: rat)\<rfloor> = 9997"
proof -
  have "binary64 (4502698817364021 / 2 ^ 52 * 9999)
      = of_int (rne (4502698817364021 / 2 ^ 52 * 9999 * 2 ^ 39)) / 2 ^ 39"
    by (rule binary64_grid) (simp_all add: emin_def)
  also have "rne (4502698817364021 / 2 ^ 52 * 9999 * 2 ^ 39) = 9997 * 2 ^ 39"
    by (simp add: rne_def Let_def floor_rat_numeral)
  finally have 1: "binary64 (4502698817364021 / 2 ^ 52 * 9999) = 9997" by simp
  have 2: "binary64 (9997 + 1) = 9998" using binary64_of_nat [of 9998] by simp
  have 3: "\<lfloor>(4502698817364021 / 2 ^ 52 * 9999 + 1 :: rat)\<rfloor> = 9997"
    by (simp add: floor_rat_numeral)
  show ?thesis by (simp only: 1 2 3) simp
qed

lemma js_add_exact: "a + b \<le> 2 ^ 53 \<Longrightarrow> js_add a b = a + b"
proof -
  assume "a + b \<le> 2 ^ 53"
  then have "binary64 (of_nat (a + b)) = of_nat (a + b)" by (rule binary64_of_nat)
  then show ?thesis by (simp add: js_add_def)
qed

lemma js_add_2_53: "js_add 9007199254740992 (Suc 0) = 9007199254740992"
  using binary64_2_53_plus_1 by (simp add: js_add_def)

lemma js_add_0_1: "js_add 0 (Suc 0) = Suc 0"
  using js_add_exact [of 0 1] by simp

subsection \<open>Tables\<close>

lemma tbl_get_Nil: "tbl_get key k [] = None"
  by (simp add: tbl_get_def)

lemma tbl_get_None_iff: "tbl_get key k xs = None \<longleftrightarrow> k \<notin> key ` set xs"
  by (auto simp: tbl_get_def find_None_iff)

lemma tbl_get_SomeD: "tbl_get key k xs = Some x \<Longrightarrow> x \<in> set xs \<and> key x = k"
  by (auto simp: tbl_get_def find_Some_iff)

lemma tbl_get_update_same:
  "(\<And>x. key (f x) = key x) \<Longrightarrow>
   tbl_get key k (tbl_update key k f xs) = map_option f (tbl_get key k xs)"
  by (induction xs) (auto simp: tbl_get_def tbl_update_def)

lemma tbl_get_update_other:
  "(\<And>x. key (f x) = key x) \<Longrightarrow> k' \<noteq> k \<Longrightarrow>
   tbl_get key k' (tbl_update key k f xs) = tbl_get key k' xs"
  by (induction xs) (auto simp: tbl_get_def tbl_update_def)

lemma tbl_get_insert_fresh:
  "tbl_get key (key x) xs = None \<Longrightarrow>
   tbl_get key k (tbl_insert key x xs) = (if k = key x then Some x else tbl_get key k xs)"
  by (induction xs) (auto simp: tbl_get_def tbl_insert_def)

lemma tbl_get_insert:
  "tbl_get key k (tbl_insert key x xs) =
     (if k = key x \<and> tbl_get key k xs = None then Some x else tbl_get key k xs)"
  by (induction xs) (auto simp: tbl_get_def tbl_insert_def split: if_splits)

lemma tbl_get_delete: "tbl_get key k (tbl_delete key k xs) = None"
  by (auto simp add: tbl_get_None_iff tbl_delete_def)

subsection \<open>The largest server id\<close>

lemma foldl_max_ge_start:
  "server_id a \<le> server_id (foldl (\<lambda>a b. if server_id a < server_id b then b else a) a ys)"
  by (induction ys arbitrary: a) (auto intro: order_trans less_imp_le)

lemma foldl_max_ge_elem:
  "s \<in> set ys \<Longrightarrow>
   server_id s \<le> server_id (foldl (\<lambda>a b. if server_id a < server_id b then b else a) a ys)"
proof (induction ys arbitrary: a)
  case Nil
  then show ?case by simp
next
  case (Cons y ys)
  let ?a' = "if server_id a < server_id y then y else a"
  show ?case
  proof (cases "s = y")
    case True
    have "server_id y \<le> server_id ?a'" by simp
    also have "\<dots> \<le> server_id (foldl (\<lambda>a b. if server_id a < server_id b then b else a) ?a' ys)"
      by (rule foldl_max_ge_start)
    finally show ?thesis using True by simp
  next
    case False
    with Cons.prems have "s \<in> set ys" by simp
    then show ?thesis using Cons.IH by simp
  qed
qed

lemma foldl_max_mem:
  "foldl (\<lambda>a b. if server_id a < server_id b then b else a) a ys \<in> set (a # ys)"
  by (induction ys arbitrary: a) auto

lemma reql_max_ge: "reql_max xs = Inr m \<Longrightarrow> s \<in> set xs \<Longrightarrow> server_id s \<le> server_id m"
  by (cases xs) (auto simp: reql_max_def foldl_max_ge_start foldl_max_ge_elem)

lemma reql_max_mem: "reql_max xs = Inr m \<Longrightarrow> m \<in> set xs"
  using foldl_max_mem by (cases xs) (auto simp: reql_max_def)

lemma reql_max_Max: "reql_max xs = Inr m \<Longrightarrow> server_id m = Max (server_id ` set xs)"
  by (rule sym, rule Max_eqI) (auto dest: reql_max_ge reql_max_mem)

lemma reql_max_Inl: "reql_max xs = Inl e \<Longrightarrow> xs = []"
  by (cases xs) (auto simp: reql_max_def)

lemma largest_eq:
  "(case reql_max xs of Inl e \<Rightarrow> 0 | Inr s \<Rightarrow> server_id s) =
     (if xs = [] then 0 else Max (server_id ` set xs))"
proof (cases "reql_max xs")
  case (Inl e)
  then show ?thesis using reql_max_Inl by auto
next
  case (Inr m)
  then have "xs \<noteq> []" by (auto simp: reql_max_def)
  with Inr show ?thesis by (simp add: reql_max_Max)
qed

lemma largest_fresh:
  "tbl_get server_id ((case reql_max xs of Inl e \<Rightarrow> 0 | Inr s \<Rightarrow> server_id s) + 1) xs = None"
proof (cases "reql_max xs")
  case (Inl e)
  then have "xs = []" by (rule reql_max_Inl)
  then show ?thesis by (simp add: tbl_get_def)
next
  case (Inr m)
  then show ?thesis by (auto simp: tbl_get_None_iff dest: reql_max_ge)
qed

lemma largest_exact:
  assumes "ids_exact d"
  shows "js_add (case reql_max (servers_table d) of Inl e \<Rightarrow> 0 | Inr s \<Rightarrow> server_id s) 1
       = (case reql_max (servers_table d) of Inl e \<Rightarrow> 0 | Inr s \<Rightarrow> server_id s) + 1"
proof -
  have "(case reql_max (servers_table d) of Inl e \<Rightarrow> 0 | Inr s \<Rightarrow> server_id s) < 2 ^ 53"
  proof (cases "reql_max (servers_table d)")
    case (Inl e)
    then show ?thesis by simp
  next
    case (Inr m)
    then have "m \<in> set (servers_table d)" by (rule reql_max_mem)
    with assms have "server_id m < 2 ^ 53" by (simp add: ids_exact_def list_all_iff)
    with Inr show ?thesis by simp
  qed
  then show ?thesis by (intro js_add_exact) simp
qed

subsection \<open>Creating a server\<close>

lemma members_of_mem:
  "tbl_get user_id k (users_table d) = Some u \<Longrightarrow> contains (servers u) sid \<Longrightarrow>
   k \<in> user_id ` set (members_of d sid)"
  by (drule tbl_get_SomeD) (auto simp: members_of_def member.truncate_def image_iff)

lemma truncate_user_id: "user_id (member.truncate u) = user_id u"
  by (simp add: member.truncate_def)

text \<open>
  C5. When the owner is an account of the store and the server ids are below \<open>2^53\<close>,
  \<open>createServer\<close> returns a joined server whose id is the largest id in the table
  plus one, and \<open>1\<close> when the table is empty (the error of \<open>max\<close> is caught, leaving
  \<open>0\<close>); the id was free, the record is in the table afterwards, the owner is among the
  returned members, and the id is in the owner's membership set.
\<close>

theorem createServer_owner_member:
  assumes "tbl_get user_id own (users_table d) \<noteq> None" and "ids_exact d"
  shows "\<exists>js u. snd (createServer d nm icon own) = Inr js
     \<and> server_id js = (if servers_table d = [] then 1 else Max (server_id ` set (servers_table d)) + 1)
     \<and> name js = nm \<and> iconUrl js = icon \<and> owner js = own
     \<and> tbl_get server_id (server_id js) (servers_table d) = None
     \<and> tbl_get server_id (server_id js) (servers_table (fst (createServer d nm icon own)))
          = Some \<lparr>server_id = server_id js, name = nm, iconUrl = icon, owner = own\<rparr>
     \<and> own \<in> user_id ` set (members js)
     \<and> tbl_get user_id own (users_table (fst (createServer d nm icon own))) = Some u
     \<and> server_id js \<in> set (servers u)"
proof -
  define sid where
    "sid = js_add (case reql_max (servers_table d) of Inl e \<Rightarrow> 0 | Inr s \<Rightarrow> server_id s) 1"
  define srv where "srv = \<lparr>server_id = sid, name = nm, iconUrl = icon, owner = own\<rparr>"
  define d1 where "d1 = d\<lparr>servers_table := tbl_insert server_id srv (servers_table d)\<rparr>"
  define d2 where "d2 = addMemberToServer d1 own sid"
  have cs: "createServer d nm icon own = (d2, getServer d2 sid)"
    by (simp add: createServer_def Let_def sid_def srv_def d1_def d2_def)
  have plus: "sid = (case reql_max (servers_table d) of Inl e \<Rightarrow> 0 | Inr s \<Rightarrow> server_id s) + 1"
    unfolding sid_def using assms(2) by (rule largest_exact)
  have fresh: "tbl_get server_id sid (servers_table d) = None"
    unfolding plus by (rule largest_fresh)
  have sid_eq: "sid = (if servers_table d = [] then 1 else Max (server_id ` set (servers_table d)) + 1)"
    unfolding plus by (simp add: largest_eq)
  have g1: "tbl_get server_id sid (servers_table d1) = Some srv"
    using fresh by (simp add: d1_def tbl_get_insert_fresh srv_def)
  have st2: "servers_table d2 = servers_table d1"
    by (auto simp: d2_def addMemberToServer_def Let_def split: option.splits)
  from assms(1) obtain u0 where u0: "tbl_get user_id own (users_table d1) = Some u0"
    by (auto simp: d1_def)
  have "\<exists>u. tbl_get user_id own (users_table d2) = Some u \<and> sid \<in> set (servers u)"
  proof (cases "contains (servers u0) sid")
    case True
    then have "d2 = d1" using u0 by (simp add: d2_def addMemberToServer_def)
    with True u0 show ?thesis by (simp add: contains_def)
  next
    case False
    then have "users_table d2 =
        tbl_update user_id own (\<lambda>row. row\<lparr>servers := reql_append (servers row) sid\<rparr>) (users_table d1)"
      using u0 g1 by (simp add: d2_def addMemberToServer_def)
    then show ?thesis using u0 by (simp add: tbl_get_update_same reql_append_def)
  qed
  then obtain u where u: "tbl_get user_id own (users_table d2) = Some u" "sid \<in> set (servers u)"
    by blast
  have gs: "getServer d2 sid = Inr (server.extend srv (joined_server.fields (members_of d2 sid)))"
    using g1 st2 by (simp add: getServer_def)
  have mem: "own \<in> user_id ` set (members_of d2 sid)"
    using u by (intro members_of_mem) (auto simp: contains_def)
  show ?thesis
    using cs gs g1 st2 u mem fresh sid_eq
    by (simp add: srv_def server.extend_def joined_server.fields_def)
qed

theorem createServer_owner_member_witness:
  "tbl_get user_id ''7'' (users_table store0) \<noteq> None \<and> ids_exact store0
   \<and> (\<exists>js u. snd (createServer store0 ''Guild'' None ''7'') = Inr js \<and> server_id js = 1
         \<and> ''7'' \<in> user_id ` set (members js)
         \<and> tbl_get user_id ''7'' (users_table (fst (createServer store0 ''Guild'' None ''7''))) = Some u
         \<and> 1 \<in> set (servers u))"
proof -
  have h: "tbl_get user_id ''7'' (users_table store0) \<noteq> None"
    by (simp add: store0_def alice_def tbl_get_def)
  have x: "ids_exact store0"
    by (simp add: ids_exact_def store0_def)
  have e: "servers_table store0 = []"
    by (simp add: store0_def)
  from createServer_owner_member [OF h x, of "''Guild''" None] obtain js u where
    "snd (createServer store0 ''Guild'' None ''7'') = Inr js"
    "server_id js = (if servers_table store0 = [] then 1 else Max (server_id ` set (servers_table store0)) + 1)"
    "''7'' \<in> user_id ` set (members js)"
    "tbl_get user_id ''7'' (users_table (fst (createServer store0 ''Guild'' None ''7''))) = Some u"
    "server_id js \<in> set (servers u)"
    by blast
  with h x e show ?thesis by auto
qed

text \<open>
  Without the bound the sum is not the next integer. In \<open>store_big\<close> the largest id is
  \<open>2^53\<close>, and \<open>2^53 + 1\<close> rounds to \<open>2^53\<close>: the insert is refused because the key is
  present, the owner joins the server that has that id, and that server is returned.
\<close>

theorem createServer_id_counterexample:
  "\<exists>js. snd (createServer store_big ''Raid'' None ''7'') = Inr js
     \<and> Max (server_id ` set (servers_table store_big)) = 2 ^ 53
     \<and> server_id js = 2 ^ 53
     \<and> name js = ''Guild'' \<and> owner js = ''8''
     \<and> servers_table (fst (createServer store_big ''Raid'' None ''7'')) = servers_table store_big"
  by (simp add: createServer_def Let_def store_big_def reql_max_def guild_def js_add_2_53
        tbl_insert_def tbl_get_def addMemberToServer_def contains_def alice_def getServer_def
        server.extend_def joined_server.fields_def)

text \<open>
  C10. When the owner id is not an account of the store and the server ids are below
  \<open>2^53\<close>, \<open>createServer\<close> still inserts the record and returns the joined server; the
  join changes no account; the returned members are the accounts that listed the new
  id before the call, none of them the owner, so the owner is not a member of the
  server it owns. The list is empty when the membership sets of the store refer to
  existing servers only.
\<close>

theorem createServer_missing_owner:
  assumes "tbl_get user_id own (users_table d) = None" and "ids_exact d"
  shows "\<exists>js. snd (createServer d nm icon own) = Inr js
     \<and> server_id js = (if servers_table d = [] then 1 else Max (server_id ` set (servers_table d)) + 1)
     \<and> owner js = own
     \<and> tbl_get server_id (server_id js) (servers_table d) = None
     \<and> tbl_get server_id (server_id js) (servers_table (fst (createServer d nm icon own)))
          = Some \<lparr>server_id = server_id js, name = nm, iconUrl = icon, owner = own\<rparr>
     \<and> users_table (fst (createServer d nm icon own)) = users_table d
     \<and> members js = members_of d (server_id js)
     \<and> owner js \<notin> user_id ` set (members js)
     \<and> (membership_consistent d \<longrightarrow> members js = [])"
proof -
  define sid where
    "sid = js_add (case reql_max (servers_table d) of Inl e \<Rightarrow> 0 | Inr s \<Rightarrow> server_id s) 1"
  define srv where "srv = \<lparr>server_id = sid, name = nm, iconUrl = icon, owner = own\<rparr>"
  define d1 where "d1 = d\<lparr>servers_table := tbl_insert server_id srv (servers_table d)\<rparr>"
  have d2: "addMemberToServer d1 own sid = d1"
    using assms(1) by (simp add: addMemberToServer_def d1_def)
  have cs: "createServer d nm icon own = (d1, getServer d1 sid)"
    using d2 by (simp add: createServer_def Let_def sid_def srv_def d1_def)
  have plus: "sid = (case reql_max (servers_table d) of Inl e \<Rightarrow> 0 | Inr s \<Rightarrow> server_id s) + 1"
    unfolding sid_def using assms(2) by (rule largest_exact)
  have fresh: "tbl_get server_id sid (servers_table d) = None"
    unfolding plus by (rule largest_fresh)
  have sid_eq: "sid = (if servers_table d = [] then 1 else Max (server_id ` set (servers_table d)) + 1)"
    unfolding plus by (simp add: largest_eq)
  have g1: "tbl_get server_id sid (servers_table d1) = Some srv"
    using fresh by (simp add: d1_def tbl_get_insert_fresh srv_def)
  have mem: "members_of d1 sid = members_of d sid"
    by (simp add: members_of_def d1_def)
  have gs: "getServer d1 sid = Inr (server.extend srv (joined_server.fields (members_of d sid)))"
    using g1 mem by (simp add: getServer_def)
  have "own \<notin> user_id ` set (users_table d)"
    using assms(1) by (simp add: tbl_get_None_iff)
  then have notin: "own \<notin> user_id ` set (members_of d sid)"
    by (auto simp: members_of_def truncate_user_id)
  have empty: "members_of d sid = []" if "membership_consistent d"
  proof -
    have "filter (\<lambda>u. contains (servers u) sid) (users_table d) = []"
      using that fresh
      by (fastforce simp: membership_consistent_def list_all_iff filter_empty_conv contains_def)
    then show ?thesis by (simp add: members_of_def)
  qed
  show ?thesis
    using cs gs g1 sid_eq fresh notin empty
    by (simp add: srv_def server.extend_def joined_server.fields_def d1_def)
qed

theorem createServer_missing_owner_witness:
  "tbl_get user_id ''999'' (users_table store1) = None \<and> ids_exact store1
   \<and> membership_consistent store1
   \<and> (\<exists>js. snd (createServer store1 ''Ghost'' None ''999'') = Inr js \<and> server_id js = 3
         \<and> owner js = ''999'' \<and> members js = []
         \<and> users_table (fst (createServer store1 ''Ghost'' None ''999'')) = users_table store1)"
proof -
  have h1: "tbl_get user_id ''999'' (users_table store1) = None"
    by (simp add: store1_def alice_def bob_def tbl_get_def)
  have h2: "ids_exact store1"
    by (simp add: ids_exact_def store1_def guild_def)
  have h3: "membership_consistent store1"
    by (simp add: membership_consistent_def store1_def alice_def bob_def guild_def tbl_get_def)
  have e: "(if servers_table store1 = [] then 1 else Max (server_id ` set (servers_table store1)) + 1) = 3"
    by (simp add: store1_def guild_def)
  from createServer_missing_owner [OF h1 h2, of "''Ghost''" None] obtain js where
    "snd (createServer store1 ''Ghost'' None ''999'') = Inr js"
    "server_id js = (if servers_table store1 = [] then 1 else Max (server_id ` set (servers_table store1)) + 1)"
    "owner js = ''999''"
    "users_table (fst (createServer store1 ''Ghost'' None ''999'')) = users_table store1"
    "membership_consistent store1 \<longrightarrow> members js = []"
    by blast
  with e h1 h2 h3 show ?thesis by auto
qed

text \<open>
  The members list need not be empty, and the record need not be inserted. In
  \<open>store_stale\<close> the account \<open>bob\<close> lists server 1, which is the id the new server gets:
  \<open>bob\<close> is returned as its member. In \<open>store_big\<close> the id computed is the id of the
  server already there, and the table stays as it was.
\<close>

theorem createServer_missing_owner_counterexample:
  "tbl_get user_id ''999'' (users_table store_stale) = None
   \<and> (\<exists>js. snd (createServer store_stale ''Ghost'' None ''999'') = Inr js
         \<and> server_id js = 1 \<and> members js = [member.truncate bob] \<and> members js \<noteq> [])
   \<and> tbl_get user_id ''999'' (users_table store_big) = None
   \<and> servers_table (fst (createServer store_big ''Ghost'' None ''999'')) = servers_table store_big"
proof -
  have 1: "tbl_get user_id ''999'' (users_table store_stale) = None"
    by (simp add: store_stale_def bob_def tbl_get_def)
  have 2: "\<exists>js. snd (createServer store_stale ''Ghost'' None ''999'') = Inr js
         \<and> server_id js = 1 \<and> members js = [member.truncate bob] \<and> members js \<noteq> []"
    by (simp add: createServer_def Let_def store_stale_def reql_max_def js_add_0_1 tbl_insert_def
          tbl_get_def addMemberToServer_def getServer_def members_of_def contains_def
          server.extend_def joined_server.fields_def)
       (simp add: bob_def)
  have 3: "tbl_get user_id ''999'' (users_table store_big) = None"
    by (simp add: store_big_def alice_def tbl_get_def)
  have 4: "servers_table (fst (createServer store_big ''Ghost'' None ''999'')) = servers_table store_big"
    by (simp add: createServer_def Let_def store_big_def reql_max_def guild_def js_add_2_53
          tbl_insert_def tbl_get_def addMemberToServer_def alice_def)
  from 1 2 3 4 show ?thesis by (intro conjI)
qed

subsection \<open>Joining a server\<close>

text \<open>
  C6. \<open>addMemberToServer\<close> changes nothing when the account or the server is missing or
  the id is already in the account's membership set; otherwise the account's set gets
  the id appended once and nothing else changes. A second call with the same arguments
  changes nothing, and a membership set without duplicates stays without duplicates.
\<close>

theorem addMemberToServer_idempotent:
  "(tbl_get user_id uid (users_table d) = None \<or> tbl_get server_id sid (servers_table d) = None
      \<or> (\<exists>u. tbl_get user_id uid (users_table d) = Some u \<and> sid \<in> set (servers u))
     \<longrightarrow> addMemberToServer d uid sid = d)
   \<and> (\<forall>u. tbl_get user_id uid (users_table d) = Some u
          \<and> tbl_get server_id sid (servers_table d) \<noteq> None \<and> sid \<notin> set (servers u)
        \<longrightarrow> tbl_get user_id uid (users_table (addMemberToServer d uid sid))
              = Some (u\<lparr>servers := servers u @ [sid]\<rparr>))
   \<and> (\<forall>k. k \<noteq> uid \<longrightarrow> tbl_get user_id k (users_table (addMemberToServer d uid sid))
              = tbl_get user_id k (users_table d))
   \<and> servers_table (addMemberToServer d uid sid) = servers_table d
   \<and> invites_table (addMemberToServer d uid sid) = invites_table d
   \<and> addMemberToServer (addMemberToServer d uid sid) uid sid = addMemberToServer d uid sid
   \<and> (\<forall>u u'. tbl_get user_id uid (users_table d) = Some u
          \<and> tbl_get user_id uid (users_table (addMemberToServer d uid sid)) = Some u'
          \<and> distinct (servers u) \<longrightarrow> distinct (servers u'))"
proof -
  let ?d' = "addMemberToServer d uid sid"
  have noop: "tbl_get user_id uid (users_table d) = None \<or> tbl_get server_id sid (servers_table d) = None
      \<or> (\<exists>u. tbl_get user_id uid (users_table d) = Some u \<and> sid \<in> set (servers u))
     \<Longrightarrow> ?d' = d"
    by (auto simp: addMemberToServer_def contains_def split: option.splits)
  have join: "tbl_get user_id uid (users_table ?d') = Some (u\<lparr>servers := servers u @ [sid]\<rparr>)"
    if "tbl_get user_id uid (users_table d) = Some u" "tbl_get server_id sid (servers_table d) \<noteq> None"
       "sid \<notin> set (servers u)" for u
    using that by (auto simp: addMemberToServer_def contains_def tbl_get_update_same reql_append_def)
  have other: "tbl_get user_id k (users_table ?d') = tbl_get user_id k (users_table d)"
    if "k \<noteq> uid" for k
    using that by (auto simp: addMemberToServer_def tbl_get_update_other split: option.splits)
  have frame: "servers_table ?d' = servers_table d" "invites_table ?d' = invites_table d"
    by (auto simp: addMemberToServer_def split: option.splits)
  have idem: "addMemberToServer ?d' uid sid = ?d'"
    by (auto simp: addMemberToServer_def Let_def tbl_get_update_same contains_def reql_append_def
             split: option.splits)
  have dist: "distinct (servers u')"
    if "tbl_get user_id uid (users_table d) = Some u" "tbl_get user_id uid (users_table ?d') = Some u'"
       "distinct (servers u)" for u u'
    using that
    by (auto simp: addMemberToServer_def contains_def tbl_get_update_same reql_append_def
             split: option.splits if_splits)
  show ?thesis
    using noop join other frame idem dist by blast
qed

text \<open>
  The instance: \<open>alice\<close>, a member of no server, joins server 2 of \<open>store1\<close>; joining
  again changes nothing; \<open>bob\<close>, already a member, and an unknown account change nothing.
\<close>

theorem addMemberToServer_idempotent_witness:
  "tbl_get user_id ''7'' (users_table store1) = Some alice
   \<and> tbl_get server_id 2 (servers_table store1) \<noteq> None
   \<and> 2 \<notin> set (servers alice) \<and> distinct (servers alice)
   \<and> tbl_get user_id ''7'' (users_table (addMemberToServer store1 ''7'' 2))
        = Some (alice\<lparr>servers := [2]\<rparr>)
   \<and> addMemberToServer (addMemberToServer store1 ''7'' 2) ''7'' 2 = addMemberToServer store1 ''7'' 2
   \<and> tbl_get user_id ''8'' (users_table (addMemberToServer store1 ''7'' 2)) = Some bob
   \<and> tbl_get user_id ''8'' (users_table store1) = Some bob \<and> 2 \<in> set (servers bob)
   \<and> addMemberToServer store1 ''8'' 2 = store1
   \<and> tbl_get user_id ''999'' (users_table store1) = None
   \<and> addMemberToServer store1 ''999'' 2 = store1"
proof -
  have a: "tbl_get user_id ''7'' (users_table store1) = Some alice"
    by (simp add: store1_def alice_def bob_def tbl_get_def)
  have b: "tbl_get user_id ''8'' (users_table store1) = Some bob"
    by (simp add: store1_def alice_def bob_def tbl_get_def)
  have c: "tbl_get user_id ''999'' (users_table store1) = None"
    by (simp add: store1_def alice_def bob_def tbl_get_def)
  have s: "tbl_get server_id 2 (servers_table store1) \<noteq> None"
    by (simp add: store1_def guild_def tbl_get_def)
  have m: "2 \<notin> set (servers alice)" "distinct (servers alice)" "2 \<in> set (servers bob)"
    by (simp_all add: alice_def bob_def)
  have n: "(''8''::string) \<noteq> ''7''" by simp
  note T = addMemberToServer_idempotent [of "''7''" store1 2]
  have 1: "tbl_get user_id ''7'' (users_table (addMemberToServer store1 ''7'' 2))
             = Some (alice\<lparr>servers := servers alice @ [2]\<rparr>)"
    using T [THEN conjunct2, THEN conjunct1, rule_format, of alice] a s m(1) by simp
  have 2: "addMemberToServer (addMemberToServer store1 ''7'' 2) ''7'' 2 = addMemberToServer store1 ''7'' 2"
    using T by (elim conjE)
  have 3: "tbl_get user_id ''8'' (users_table (addMemberToServer store1 ''7'' 2)) = Some bob"
    using T [THEN conjunct2, THEN conjunct2, THEN conjunct1, rule_format, of "''8''"] n b by simp
  have 4: "addMemberToServer store1 ''8'' 2 = store1"
    using addMemberToServer_idempotent [of "''8''" store1 2, THEN conjunct1] b m(3) by simp
  have 5: "addMemberToServer store1 ''999'' 2 = store1"
    using addMemberToServer_idempotent [of "''999''" store1 2, THEN conjunct1] c by simp
  have 6: "alice\<lparr>servers := servers alice @ [2]\<rparr> = alice\<lparr>servers := [2]\<rparr>"
    by (simp add: alice_def)
  show ?thesis
    unfolding 1 2 3 4 5 6 using a b c s m by simp
qed

subsection \<open>Deleting a server\<close>

lemma reql_difference_single: "reql_difference xs [k] = removeAll k xs"
  by (induction xs) (auto simp: reql_difference_def)

text \<open>
  C7. After \<open>deleteServer\<close> the server table has no record with the id and keeps every
  other record; the invites are those of the other servers; every account keeps its
  fields but for its membership set, from which the id is gone; so no invite and no
  membership set refers to the id.
\<close>

theorem deleteServer_cascade:
  "tbl_get server_id sid (servers_table (deleteServer d sid)) = None
   \<and> servers_table (deleteServer d sid) = filter (\<lambda>s. server_id s \<noteq> sid) (servers_table d)
   \<and> invites_table (deleteServer d sid) = filter (\<lambda>i. serverId i \<noteq> sid) (invites_table d)
   \<and> users_table (deleteServer d sid)
        = map (\<lambda>u. u\<lparr>servers := removeAll sid (servers u)\<rparr>) (users_table d)
   \<and> (\<forall>i \<in> set (invites_table (deleteServer d sid)). serverId i \<noteq> sid)
   \<and> (\<forall>u \<in> set (users_table (deleteServer d sid)). sid \<notin> set (servers u))"
proof -
  have same: "\<And>u::user. \<not> contains (servers u) sid \<Longrightarrow> u\<lparr>servers := removeAll sid (servers u)\<rparr> = u"
    by (simp add: contains_def)
  have users: "users_table (deleteServer d sid)
      = map (\<lambda>u. u\<lparr>servers := removeAll sid (servers u)\<rparr>) (users_table d)"
    by (auto simp: deleteServer_def Let_def reql_difference_single same)
  have srv: "servers_table (deleteServer d sid) = tbl_delete server_id sid (servers_table d)"
    by (simp add: deleteServer_def Let_def)
  have inv: "invites_table (deleteServer d sid) = filter (\<lambda>i. serverId i \<noteq> sid) (invites_table d)"
    by (simp add: deleteServer_def Let_def)
  show ?thesis
    by (simp add: users inv srv tbl_get_delete) (simp add: tbl_delete_def)
qed

theorem deleteServer_cascade_witness:
  "deleteServer store1 2
     = \<lparr>users_table = [alice, bob\<lparr>servers := [1]\<rparr>], servers_table = [guild 1],
        invites_table = [\<lparr>code = ''B1xZ9p'', serverId = 1, inviter = ''8''\<rparr>]\<rparr>
   \<and> tbl_get server_id 2 (servers_table (deleteServer store1 2)) = None
   \<and> list_all (\<lambda>u. 2 \<notin> set (servers u)) (users_table (deleteServer store1 2))
   \<and> list_all (\<lambda>i. serverId i \<noteq> 2) (invites_table (deleteServer store1 2))"
proof -
  have e: "deleteServer store1 2
     = \<lparr>users_table = [alice, bob\<lparr>servers := [1]\<rparr>], servers_table = [guild 1],
        invites_table = [\<lparr>code = ''B1xZ9p'', serverId = 1, inviter = ''8''\<rparr>]\<rparr>"
    by (simp add: deleteServer_def Let_def store1_def alice_def bob_def guild_def tbl_delete_def
                  contains_def reql_difference_def)
  note T = deleteServer_cascade [of 2 store1]
  have 1: "tbl_get server_id 2 (servers_table (deleteServer store1 2)) = None"
    using T by (elim conjE)
  have 2: "list_all (\<lambda>u. 2 \<notin> set (servers u)) (users_table (deleteServer store1 2))"
    unfolding list_all_iff using T by (elim conjE)
  have 3: "list_all (\<lambda>i. serverId i \<noteq> 2) (invites_table (deleteServer store1 2))"
    unfolding list_all_iff using T by (elim conjE)
  from e 1 2 3 show ?thesis by (intro conjI)
qed

subsection \<open>Invites\<close>

lemma getInvite_never_created:
  "getInvite e c' = None \<Longrightarrow> c' \<notin> set (map fst xs) \<Longrightarrow>
   getInvite (foldl (\<lambda>e (c, sid, who). fst (generateInvite e c sid who)) e xs) c' = None"
proof (induction xs arbitrary: e)
  case Nil
  then show ?case by simp
next
  case (Cons x xs)
  obtain c sid who where x: "x = (c, sid, who)" by (cases x)
  with Cons.prems have "c' \<noteq> c" "c' \<notin> set (map fst xs)" by auto
  moreover from \<open>c' \<noteq> c\<close> Cons.prems(1)
  have "getInvite (fst (generateInvite e c sid who)) c' = None"
    by (simp add: getInvite_def generateInvite_def tbl_get_insert)
  ultimately show ?case using Cons.IH x by simp
qed

text \<open>
  C9. \<open>generateInvite\<close> returns the code it was given by the generator; when that code
  is not yet a key of the invites table (the generator's contract), resolving it
  afterwards yields the invite with the given server id and inviter. Resolving any
  other code gives what it gave before; so in a store built from an empty invites
  table by any sequence of creations, a code that is none of the created ones
  resolves to none.
\<close>

theorem invite_roundtrip:
  "(getInvite d c = None \<longrightarrow>
      getInvite (fst (generateInvite d c sid who)) (snd (generateInvite d c sid who))
        = Some \<lparr>code = c, serverId = sid, inviter = who\<rparr>)
   \<and> snd (generateInvite d c sid who) = c
   \<and> (\<forall>c'. c' \<noteq> c \<longrightarrow> getInvite (fst (generateInvite d c sid who)) c' = getInvite d c')
   \<and> (\<forall>xs c'. c' \<notin> set (map fst xs) \<longrightarrow>
         getInvite (foldl (\<lambda>e (c, sid, who). fst (generateInvite e c sid who))
                      (d\<lparr>invites_table := []\<rparr>) xs) c' = None)"
proof -
  have "getInvite (d\<lparr>invites_table := []\<rparr>) c' = None" for c'
    by (simp add: getInvite_def tbl_get_Nil)
  then have "\<forall>xs c'. c' \<notin> set (map fst xs) \<longrightarrow>
         getInvite (foldl (\<lambda>e (c, sid, who). fst (generateInvite e c sid who))
                      (d\<lparr>invites_table := []\<rparr>) xs) c' = None"
    using getInvite_never_created by blast
  then show ?thesis
    by (simp add: getInvite_def generateInvite_def tbl_get_insert)
qed

theorem invite_roundtrip_witness:
  "getInvite store1 ''r1Qw2e'' = None
   \<and> getInvite (fst (generateInvite store1 ''r1Qw2e'' 2 ''7'')) (snd (generateInvite store1 ''r1Qw2e'' 2 ''7''))
       = Some \<lparr>code = ''r1Qw2e'', serverId = 2, inviter = ''7''\<rparr>
   \<and> getInvite store1 ''nope'' = None
   \<and> getInvite (fst (generateInvite store1 ''r1Qw2e'' 2 ''7'')) ''nope'' = None
   \<and> getInvite (fst (generateInvite (fst (generateInvite (store1\<lparr>invites_table := []\<rparr>) ''r1Qw2e'' 2 ''7''))
                        ''Sy9aLm'' 1 ''8'')) ''nope'' = None"
proof -
  have h: "getInvite store1 ''r1Qw2e'' = None" "getInvite store1 ''nope'' = None"
    by (simp_all add: getInvite_def store1_def tbl_get_def)
  have n: "''nope'' \<noteq> ''r1Qw2e''" by simp
  note T = invite_roundtrip [of store1 "''r1Qw2e''" 2 "''7''"]
  have 1: "getInvite (fst (generateInvite store1 ''r1Qw2e'' 2 ''7'')) (snd (generateInvite store1 ''r1Qw2e'' 2 ''7''))
       = Some \<lparr>code = ''r1Qw2e'', serverId = 2, inviter = ''7''\<rparr>"
    using T [THEN conjunct1] h(1) by (rule mp)
  have 2: "getInvite (fst (generateInvite store1 ''r1Qw2e'' 2 ''7'')) ''nope'' = None"
    using T [THEN conjunct2, THEN conjunct2, THEN conjunct1, rule_format, of "''nope''"] n h(2)
    by simp
  have 3: "getInvite (fst (generateInvite (fst (generateInvite (store1\<lparr>invites_table := []\<rparr>) ''r1Qw2e'' 2 ''7''))
                        ''Sy9aLm'' 1 ''8'')) ''nope'' = None"
    using T [THEN conjunct2, THEN conjunct2, THEN conjunct2, rule_format,
             of "''nope''" "[(''r1Qw2e'', 2, ''7''), (''Sy9aLm'', 1, ''8'')]"]
    by simp
  from h 1 2 3 show ?thesis by (intro conjI)
qed

subsection \<open>The membership invariant\<close>

lemma membership_consistent_iff:
  "membership_consistent d \<longleftrightarrow>
     (\<forall>u \<in> set (users_table d). \<forall>k \<in> set (servers u). k \<in> server_id ` set (servers_table d))"
  by (auto simp: membership_consistent_def list_all_iff tbl_get_None_iff)

lemma set_tbl_insert: "set xs \<subseteq> set (tbl_insert key x xs)"
  by (auto simp: tbl_insert_def)

lemma consistent_addMemberToServer:
  "membership_consistent d \<Longrightarrow> membership_consistent (addMemberToServer d uid sid)"
  unfolding membership_consistent_iff
  by (auto simp: addMemberToServer_def tbl_update_def reql_append_def tbl_get_None_iff
           split: option.splits if_splits)

lemma consistent_removeMemberFromServer:
  "membership_consistent d \<Longrightarrow> membership_consistent (removeMemberFromServer d uid sid)"
  unfolding membership_consistent_iff
  by (auto simp: removeMemberFromServer_def tbl_update_def reql_difference_def split: if_splits)

lemma consistent_deleteServer:
  "membership_consistent d \<Longrightarrow> membership_consistent (deleteServer d sid)"
  unfolding membership_consistent_iff
  by (auto simp: deleteServer_def Let_def tbl_delete_def reql_difference_def contains_def
           image_iff split: if_splits) metis+

lemma consistent_deleteUser:
  "membership_consistent d \<Longrightarrow> membership_consistent (deleteUser d uid)"
  unfolding membership_consistent_iff
  by (auto simp: deleteUser_def tbl_delete_def)

lemma consistent_generateInvite:
  "membership_consistent d \<Longrightarrow> membership_consistent (fst (generateInvite d c sid who))"
  unfolding membership_consistent_iff
  by (auto simp: generateInvite_def)

lemma consistent_createServer:
  assumes "membership_consistent d"
  shows "membership_consistent (fst (createServer d nm icon own))"
proof -
  have "membership_consistent (d\<lparr>servers_table := tbl_insert server_id s (servers_table d)\<rparr>)" for s
    using assms set_tbl_insert [of "servers_table d" server_id s]
    unfolding membership_consistent_iff by simp (meson image_mono subsetD)
  then show ?thesis
    by (simp add: createServer_def Let_def consistent_addMemberToServer)
qed

lemma consistent_createUser:
  assumes "membership_consistent d" and "createUser hash rnd i d new_id un pw = Some (Inr (d', tag, j))"
  shows "membership_consistent d'"
  using assms unfolding membership_consistent_iff
  by (auto simp: createUser_def tbl_insert_def split: option.splits if_splits)

lemma consistent_updateUser:
  assumes "membership_consistent d" and "updateUser hash rnd i d uid un pw avatar adm = Some (d', tag, j)"
  shows "membership_consistent d'"
proof -
  have "servers u' \<in> servers ` set (users_table d)" if "u' \<in> set (users_table d')" for u'
    using that assms(2)
    by (cases adm; cases "truthy pw"; cases "avatar = Undefined")
       (auto simp: updateUser_def Let_def tbl_update_def split: option.splits if_splits)
  moreover have "servers_table d' = servers_table d"
    using assms(2) by (auto simp: updateUser_def Let_def split: option.splits)
  ultimately show ?thesis
    using assms(1) unfolding membership_consistent_iff by fastforce
qed

lemma membership_consistent_kept:
  assumes "membership_consistent d"
  shows "membership_consistent (addMemberToServer d uid sid)"
    and "membership_consistent (removeMemberFromServer d uid sid)"
    and "membership_consistent (fst (createServer d nm icon own))"
    and "membership_consistent (deleteServer d sid)"
    and "membership_consistent (deleteUser d uid)"
    and "membership_consistent (fst (generateInvite d c sid who))"
    and "createUser hash rnd i d new_id un pw = Some (Inr (d', tag, j)) \<Longrightarrow> membership_consistent d'"
    and "updateUser hash rnd i d uid un pwf avatar adm = Some (d', tag, j) \<Longrightarrow> membership_consistent d'"
proof -
  show "membership_consistent (addMemberToServer d uid sid)"
    using assms by (rule consistent_addMemberToServer)
  show "membership_consistent (removeMemberFromServer d uid sid)"
    using assms by (rule consistent_removeMemberFromServer)
  show "membership_consistent (fst (createServer d nm icon own))"
    using assms by (rule consistent_createServer)
  show "membership_consistent (deleteServer d sid)"
    using assms by (rule consistent_deleteServer)
  show "membership_consistent (deleteUser d uid)"
    using assms by (rule consistent_deleteUser)
  show "membership_consistent (fst (generateInvite d c sid who))"
    using assms by (rule consistent_generateInvite)
  show "createUser hash rnd i d new_id un pw = Some (Inr (d', tag, j)) \<Longrightarrow> membership_consistent d'"
    using assms by (rule consistent_createUser)
  show "updateUser hash rnd i d uid un pwf avatar adm = Some (d', tag, j) \<Longrightarrow> membership_consistent d'"
    using assms by (rule consistent_updateUser)
qed

lemma membership_consistent_empty:
  "membership_consistent \<lparr>users_table = [], servers_table = [], invites_table = []\<rparr>"
  by (simp add: membership_consistent_def)

subsection \<open>Decimal strings\<close>

lemma digit_char_code: "k < 10 \<Longrightarrow> of_char (digit_char k) = (48 + k :: nat)"
proof -
  assume "k < 10"
  then have "k \<in> {0,1,2,3,4,5,6,7,8,9}" by auto
  then show ?thesis by (auto simp: digit_char_def)
qed

lemma digit_char_mem: "k < 10 \<Longrightarrow> digit_char k \<in> set ''0123456789''"
  unfolding digit_char_def by (rule nth_mem) simp

lemma toString_digits: "set (toString n) \<subseteq> set ''0123456789''"
proof (induction n rule: toString.induct)
  case (1 n)
  show ?case
  proof (cases "n < 10")
    case True
    then show ?thesis using digit_char_mem[of n] by (subst toString.simps) simp
  next
    case False
    have "n mod 10 < 10" by simp
    then show ?thesis using False 1 digit_char_mem[of "n mod 10"]
      by (subst toString.simps) simp
  qed
qed

lemma toString_length: "0 < k \<Longrightarrow> n < 10 ^ k \<Longrightarrow> length (toString n) \<le> k"
proof (induction n arbitrary: k rule: toString.induct)
  case (1 n)
  show ?case
  proof (cases "n < 10")
    case True
    then show ?thesis using 1(2) by (subst toString.simps) simp
  next
    case False
    then obtain k' where k: "k = Suc k'" using 1(2) by (cases k) auto
    with False 1(3) have "0 < k'" by (cases k') auto
    moreover have "n div 10 < 10 ^ k'"
      using 1(3) k by (simp add: less_mult_imp_div_less mult.commute)
    ultimately have "length (toString (n div 10)) \<le> k'" using 1(1) False by simp
    then show ?thesis using False k by (subst toString.simps) simp
  qed
qed

lemma numeric_value_snoc: "numeric_value (s @ [c]) = 10 * numeric_value s + (of_char c - 48)"
  by (simp add: numeric_value_def)

lemma numeric_value_toString: "numeric_value (toString n) = n"
proof (induction n rule: toString.induct)
  case (1 n)
  show ?case
  proof (cases "n < 10")
    case True
    then show ?thesis by (subst toString.simps) (simp add: numeric_value_def digit_char_code)
  next
    case False
    then show ?thesis using 1
      by (subst toString.simps) (simp add: numeric_value_snoc digit_char_code)
  qed
qed

lemma numeric_value_zeros: "numeric_value (replicate k (CHR ''0'') @ s) = numeric_value s"
proof -
  have "foldl (\<lambda>a c. 10 * a + (of_char c - 48)) 0 (replicate k (CHR ''0'')) = (0::nat)"
    by (induction k) simp_all
  then show ?thesis by (simp add: numeric_value_def)
qed

lemma padStart_props:
  assumes "1 \<le> v" "v \<le> 9999"
  shows "length (padStart 4 (CHR ''0'') (toString v)) = 4"
    and "set (padStart 4 (CHR ''0'') (toString v)) \<subseteq> set ''0123456789''"
    and "numeric_value (padStart 4 (CHR ''0'') (toString v)) = v"
proof -
  have "v < 10 ^ 4" using assms by simp
  then have "length (toString v) \<le> 4" by (intro toString_length) simp_all
  then show "length (padStart 4 (CHR ''0'') (toString v)) = 4" by (simp add: padStart_def)
  show "set (padStart 4 (CHR ''0'') (toString v)) \<subseteq> set ''0123456789''"
    using toString_digits[of v] by (auto simp: padStart_def)
  show "numeric_value (padStart 4 (CHR ''0'') (toString v)) = v"
    by (simp add: padStart_def numeric_value_zeros numeric_value_toString)
qed

lemma draw_nonempty: "draw r \<noteq> []"
proof -
  have "toString n \<noteq> []" for n by (subst toString.simps) simp
  then show ?thesis by (simp add: draw_def padStart_def)
qed

subsection \<open>The retry loop\<close>

lemma taken_iff: "taken us un dc \<longleftrightarrow> (\<exists>u \<in> set us. username u = un \<and> discriminator u = dc)"
  by (auto simp: taken_def filter_empty_conv)

lemma namespace_full_iff:
  "namespace_full us un \<longleftrightarrow> (\<forall>v. 1 \<le> v \<and> v \<le> 9999 \<longrightarrow> taken us un (padStart 4 (CHR ''0'') (toString v)))"
  by (auto simp: namespace_full_def list_all_iff)

text \<open>If a later draw is unused, the loop returns the first unused draw.\<close>

lemma roll_finds:
  "\<not> taken us un (draw (rnd (i + n))) \<Longrightarrow>
   \<exists>k. i \<le> k \<and> \<not> taken us un (draw (rnd k))
      \<and> rollDiscriminator rnd us un i = Some (draw (rnd k), Suc k)"
proof (induction n arbitrary: i)
  case 0
  then show ?case by (subst rollDiscriminator.simps) (auto simp: Let_def)
next
  case (Suc n)
  show ?case
  proof (cases "taken us un (draw (rnd i))")
    case False
    then show ?thesis by (subst rollDiscriminator.simps) (auto simp: Let_def)
  next
    case True
    from Suc.prems have "\<not> taken us un (draw (rnd (Suc i + n)))" by simp
    from Suc.IH[OF this] obtain k where "Suc i \<le> k" "\<not> taken us un (draw (rnd k))"
      "rollDiscriminator rnd us un (Suc i) = Some (draw (rnd k), Suc k)" by blast
    with True show ?thesis
      by (subst rollDiscriminator.simps) (auto simp: Let_def intro!: exI[of _ k])
  qed
qed

text \<open>Whatever the loop returns is an unused draw.\<close>

lemma roll_Some_draw:
  assumes "rollDiscriminator rnd us un i = Some y"
  shows "\<exists>k\<ge>i. \<not> taken us un (draw (rnd k)) \<and> y = (draw (rnd k), Suc k)"
proof (rule rollDiscriminator.raw_induct
    [where P = "\<lambda>rnd us un i y. \<exists>k\<ge>i. \<not> taken us un (draw (rnd k)) \<and> y = (draw (rnd k), Suc k)",
     OF _ assms])
  fix f :: "(nat \<Rightarrow> rat) \<Rightarrow> user list \<Rightarrow> string \<Rightarrow> nat \<Rightarrow> (string \<times> nat) option"
    and rnd us un i y
  assume IH: "\<And>rnd us un i y. f rnd us un i = Some y \<Longrightarrow>
      \<exists>k\<ge>i. \<not> taken us un (draw (rnd k)) \<and> y = (draw (rnd k), Suc k)"
    and step: "(let dc = draw (rnd i) in if \<not> taken us un dc then Some (dc, Suc i)
                else f rnd us un (Suc i)) = Some y"
  show "\<exists>k\<ge>i. \<not> taken us un (draw (rnd k)) \<and> y = (draw (rnd k), Suc k)"
  proof (cases "taken us un (draw (rnd i))")
    case True
    with step have "f rnd us un (Suc i) = Some y" by (simp add: Let_def)
    from IH[OF this] obtain k where "Suc i \<le> k"
      "\<not> taken us un (draw (rnd k))" "y = (draw (rnd k), Suc k)" by blast
    then show ?thesis by (intro exI[of _ k]) simp
  next
    case False
    with step have "y = (draw (rnd i), Suc i)" by (simp add: Let_def)
    with False show ?thesis by blast
  qed
qed

lemma roll_returns:
  assumes "draws_every_value rnd i" and "\<not> namespace_full us un"
  shows "\<exists>k. i \<le> k \<and> \<not> taken us un (draw (rnd k))
      \<and> rollDiscriminator rnd us un i = Some (draw (rnd k), Suc k)"
proof -
  from assms(2) obtain v where v: "1 \<le> v" "v \<le> 9999"
    "\<not> taken us un (padStart 4 (CHR ''0'') (toString v))"
    by (auto simp: namespace_full_iff)
  then have "v \<in> {1..9999}" by simp
  with assms(1) obtain k where k: "i \<le> k"
    "nat \<lfloor>binary64 (binary64 (rnd k * 9999) + 1)\<rfloor> = v"
    unfolding draws_every_value_def by blast
  then have "\<not> taken us un (draw (rnd (i + (k - i))))"
    using v by (simp add: draw_def)
  then show ?thesis by (rule roll_finds)
qed

lemma roll_full:
  assumes "unit_interval rnd" and "namespace_full us un"
  shows "rollDiscriminator rnd us un i = None"
proof (cases "rollDiscriminator rnd us un i")
  case None
  then show ?thesis .
next
  case (Some y)
  then obtain k where "\<not> taken us un (draw (rnd k))"
    using roll_Some_draw by blast
  moreover have "1 \<le> nat \<lfloor>binary64 (binary64 (rnd k * 9999) + 1)\<rfloor>
      \<and> nat \<lfloor>binary64 (binary64 (rnd k * 9999) + 1)\<rfloor> \<le> 9999"
    using assms(1) by (intro candidate_range) (simp_all add: unit_interval_def)
  ultimately show ?thesis
    using assms(2) by (auto simp: namespace_full_iff draw_def)
qed

subsection \<open>The instances' random sequence and accounts\<close>

lemma cycle_value:
  "nat \<lfloor>binary64 (binary64 (cycle k * 9999) + 1)\<rfloor> = (k mod 16384) * 9999 div 16384 + 1"
proof -
  define n where "n = k mod 16384"
  have n: "n < 16384" by (simp add: n_def)
  have c: "cycle k * 9999 = of_nat (n * 9999) / 2 ^ 14"
    by (simp add: cycle_def n_def)
  have "binary64 (of_nat (n * 9999) / 2 ^ 14) = of_nat (n * 9999) / 2 ^ 14"
    using n by (intro binary64_exact) (simp_all add: emin_def)
  then have "binary64 (cycle k * 9999) + 1 = of_nat (n * 9999) / 2 ^ 14 + 1"
    by (simp only: c)
  also have "\<dots> = of_nat (n * 9999 + 16384) / 2 ^ 14"
    by (simp add: add_divide_distrib)
  finally have 1: "binary64 (cycle k * 9999) + 1 = of_nat (n * 9999 + 16384) / 2 ^ 14" .
  have 2: "binary64 (of_nat (n * 9999 + 16384) / 2 ^ 14) = of_nat (n * 9999 + 16384) / 2 ^ 14"
    using n by (intro binary64_exact) (simp_all add: emin_def)
  have "\<lfloor>(of_nat (n * 9999 + 16384) :: rat) / of_nat 16384\<rfloor> = int ((n * 9999 + 16384) div 16384)"
    by (rule floor_divide_of_nat_eq)
  then have 3: "\<lfloor>(of_nat (n * 9999 + 16384) :: rat) / 2 ^ 14\<rfloor> = int ((n * 9999 + 16384) div 16384)"
    by simp
  have "nat \<lfloor>binary64 (binary64 (cycle k * 9999) + 1)\<rfloor> = (n * 9999 + 16384) div 16384"
    unfolding 1 2 3 by simp
  then show ?thesis by (simp add: n_def)
qed

lemma unit_interval_cycle: "unit_interval cycle"
  unfolding unit_interval_def
proof (intro allI conjI)
  fix k :: nat
  have "k mod 16384 < 16384" by simp
  then show "binary64 (cycle k) = cycle k"
    unfolding cycle_def by (intro binary64_exact) (simp_all add: emin_def)
  show "0 \<le> cycle k" by (simp add: cycle_def)
  show "cycle k < 1" by (simp add: cycle_def)
qed

lemma draws_every_value_cycle: "draws_every_value cycle i"
  unfolding draws_every_value_def
proof
  fix v :: nat
  assume "v \<in> {1..9999}"
  then have v: "1 \<le> v" "v \<le> 9999" by simp_all
  define n where "n = ((v - 1) * 16384 + 9998) div 9999"
  have n: "n < 16384" "n * 9999 div 16384 + 1 = v"
    using v unfolding n_def by linarith+
  have "(16384 * i + n) mod 16384 = n"
    using n(1) by simp
  then have "nat \<lfloor>binary64 (binary64 (cycle (16384 * i + n) * 9999) + 1)\<rfloor> = v"
    using n(2) by (simp only: cycle_value)
  moreover have "i \<le> 16384 * i + n" by simp
  ultimately show "\<exists>k\<ge>i. nat \<lfloor>binary64 (binary64 (cycle k * 9999) + 1)\<rfloor> = v"
    by blast
qed

lemma namespace_full_crowd: "namespace_full crowd ''bob''"
  unfolding namespace_full_iff taken_iff
proof (intro allI impI)
  fix v :: nat
  assume "1 \<le> v \<and> v \<le> 9999"
  then have "v \<in> set [1..<10000]" by simp
  then have "\<lparr>user_id = toString v, username = ''bob'',
         discriminator = padStart 4 (CHR ''0'') (toString v),
         avatarUrl = Undefined, online = False, admin = Undefined,
         password = plain_hash ''hunter22'', servers = []\<rparr> \<in> set crowd"
    unfolding crowd_def set_map by (rule imageI)
  then show "\<exists>u \<in> set crowd. username u = ''bob''
       \<and> discriminator u = padStart 4 (CHR ''0'') (toString v)"
    by (rule rev_bexI) simp
qed

lemma replicate_3: "replicate 3 c = [c, c, c]"
  by (simp add: numeral_3_eq_3)

lemma draw_cycle_0: "draw (cycle 0) = ''0001''"
  unfolding draw_def cycle_value
  by (simp add: padStart_def toString.simps digit_char_def replicate_3)

lemma draw_cycle_1: "draw (cycle (Suc 0)) = ''0001''"
  unfolding draw_def cycle_value
  by (simp add: padStart_def toString.simps digit_char_def replicate_3)

lemma draw_cycle_2: "draw (cycle (Suc (Suc 0))) = ''0002''"
  unfolding draw_def cycle_value
  by (simp add: padStart_def toString.simps digit_char_def replicate_3)

lemma roll_alice: "rollDiscriminator cycle [alice] ''alice'' 0 = Some (''0002'', 3)"
proof -
  have t0: "taken [alice] ''alice'' ''0001''" and t1: "\<not> taken [alice] ''alice'' ''0002''"
    by (simp_all add: taken_def alice_def)
  have r2: "rollDiscriminator cycle [alice] ''alice'' (Suc (Suc 0)) = Some (''0002'', 3)"
    by (subst rollDiscriminator.simps) (simp add: draw_cycle_2 t1)
  have r1: "rollDiscriminator cycle [alice] ''alice'' (Suc 0) = Some (''0002'', 3)"
    by (subst rollDiscriminator.simps) (simp add: draw_cycle_1 t0 r2)
  show ?thesis
    by (subst rollDiscriminator.simps) (simp add: draw_cycle_0 t0 r1)
qed

lemma alice_namespace: "\<not> namespace_full [alice] ''alice''"
proof
  have p2: "padStart 4 (CHR ''0'') (toString 2) = ''0002''"
    by (simp add: padStart_def toString.simps digit_char_def replicate_3)
  assume "namespace_full [alice] ''alice''"
  then have "taken [alice] ''alice'' (padStart 4 (CHR ''0'') (toString 2))"
    unfolding namespace_full_iff by simp
  then show False by (simp add: p2 taken_def alice_def)
qed

subsection \<open>Resolving a discriminator\<close>

text \<open>
  C3. For a username with an unused discriminator left, and a random source of binary64
  values in \<open>[0, 1)\<close> that still produces each of the 9999 values, \<open>rollDiscriminator\<close>
  returns: a string of four decimal digits whose value lies between 1 and 9999 and
  which no account with that username holds. The candidate is computed with the two
  roundings of the code's arithmetic.
\<close>

theorem rollDiscriminator_unused:
  assumes "unit_interval rnd" and "draws_every_value rnd i" and "\<not> namespace_full us un"
  shows "\<exists>dc j. rollDiscriminator rnd us un i = Some (dc, j) \<and> i < j
     \<and> length dc = 4 \<and> set dc \<subseteq> set ''0123456789''
     \<and> 1 \<le> numeric_value dc \<and> numeric_value dc \<le> 9999
     \<and> (\<forall>u \<in> set us. username u = un \<longrightarrow> discriminator u \<noteq> dc)"
proof -
  from roll_returns [OF assms(2,3)] obtain k where k: "i \<le> k"
    "\<not> taken us un (draw (rnd k))"
    "rollDiscriminator rnd us un i = Some (draw (rnd k), Suc k)" by blast
  define v where "v = nat \<lfloor>binary64 (binary64 (rnd k * 9999) + 1)\<rfloor>"
  have "binary64 (rnd k) = rnd k" "0 \<le> rnd k" "rnd k < 1"
    using assms(1) by (simp_all add: unit_interval_def)
  then have v: "1 \<le> v" "v \<le> 9999"
    unfolding v_def using candidate_range by blast+
  have d: "draw (rnd k) = padStart 4 (CHR ''0'') (toString v)"
    by (simp add: draw_def v_def)
  have "length (draw (rnd k)) = 4" "set (draw (rnd k)) \<subseteq> set ''0123456789''"
    "numeric_value (draw (rnd k)) = v"
    unfolding d by (rule padStart_props [OF v])+
  moreover have "\<forall>u \<in> set us. username u = un \<longrightarrow> discriminator u \<noteq> draw (rnd k)"
    using k(2) by (auto simp: taken_iff)
  moreover have "i < Suc k" using k(1) by simp
  ultimately show ?thesis using k(3) v by blast
qed

text \<open>
  The instance: \<open>alice#0001\<close> exists; the first two draws are 0001, which is taken, the
  third is 0002.
\<close>

theorem rollDiscriminator_unused_witness:
  "unit_interval cycle \<and> draws_every_value cycle 0 \<and> \<not> namespace_full [alice] ''alice''
   \<and> rollDiscriminator cycle [alice] ''alice'' 0 = Some (''0002'', 3)
   \<and> (\<exists>dc j. rollDiscriminator cycle [alice] ''alice'' 0 = Some (dc, j) \<and> length dc = 4
          \<and> 1 \<le> numeric_value dc \<and> numeric_value dc \<le> 9999 \<and> discriminator alice \<noteq> dc)"
proof -
  from rollDiscriminator_unused [OF unit_interval_cycle draws_every_value_cycle alice_namespace, of 0]
  obtain dc j where "rollDiscriminator cycle [alice] ''alice'' 0 = Some (dc, j)" "length dc = 4"
    "1 \<le> numeric_value dc" "numeric_value dc \<le> 9999"
    "\<forall>u \<in> set [alice]. username u = ''alice'' \<longrightarrow> discriminator u \<noteq> dc"
    by blast
  moreover have "username alice = ''alice''" by (simp add: alice_def)
  ultimately have "\<exists>dc j. rollDiscriminator cycle [alice] ''alice'' 0 = Some (dc, j) \<and> length dc = 4
          \<and> 1 \<le> numeric_value dc \<and> numeric_value dc \<le> 9999 \<and> discriminator alice \<noteq> dc"
    by auto
  with unit_interval_cycle draws_every_value_cycle [of 0] alice_namespace roll_alice show ?thesis
    by (intro conjI)
qed

text \<open>
  C4. When the accounts of a username hold all 9999 discriminators, every draw is taken
  and the loop never leaves: \<open>rollDiscriminator\<close> and with it \<open>createUser\<close> do not
  return. No exhaustion error is raised; the test \<open>if (!discriminator)\<close> of
  \<open>createUser\<close> never fires, on any store.
\<close>

theorem createUser_exhausted_diverges:
  assumes "unit_interval rnd" and "namespace_full (users_table d) un"
  shows "rollDiscriminator rnd (users_table d) un i = None
     \<and> createUser hash rnd i d new_id un pw = None"
  using roll_full [OF assms, of i] by (simp add: createUser_def)

theorem createUser_exhausted_diverges_witness:
  "unit_interval cycle
   \<and> namespace_full (users_table \<lparr>users_table = crowd, servers_table = [], invites_table = []\<rparr>) ''bob''
   \<and> createUser plain_hash cycle 0 \<lparr>users_table = crowd, servers_table = [], invites_table = []\<rparr>
        ''10000'' ''bob'' ''secret'' = None"
proof -
  have h: "namespace_full (users_table \<lparr>users_table = crowd, servers_table = [], invites_table = []\<rparr>) ''bob''"
    using namespace_full_crowd by simp
  from createUser_exhausted_diverges [OF unit_interval_cycle h] unit_interval_cycle h
  show ?thesis by (intro conjI) simp_all
qed

lemma createUser_never_throws: "createUser hash rnd i d new_id un pw \<noteq> Some (Inl e)"
proof (cases "rollDiscriminator rnd (users_table d) un i")
  case None
  then show ?thesis by (simp add: createUser_def)
next
  case (Some y)
  then obtain k where "y = (draw (rnd k), Suc k)" using roll_Some_draw by blast
  with Some show ?thesis by (simp add: createUser_def draw_nonempty)
qed

subsection \<open>Updating an account\<close>

text \<open>
  C8. When the random source still produces every value and the username has an unused
  discriminator left, \<open>updateUser\<close> returns; the discriminator it resolved is unused
  for the given username (whether or not that is the account's present username) and
  the tag is \<open>username#discriminator\<close>. The account's row gets the username and the
  discriminator; the password hash only for a non-empty password; \<open>avatarUrl\<close> unless
  the argument is \<open>undefined\<close> (\<open>null\<close> is written as \<open>null\<close>); \<open>admin\<close> only for \<open>true\<close> or
  \<open>false\<close>. The row's id, presence and membership set, every other row and the other
  tables stay as they were.
\<close>

theorem updateUser_frame:
  assumes "draws_every_value rnd i" and "\<not> namespace_full (users_table d) un"
  shows "\<exists>dc j d'. rollDiscriminator rnd (users_table d) un i = Some (dc, j)
     \<and> updateUser hash rnd i d uid un pw avatar adm = Some (d', un @ ''#'' @ dc, j)
     \<and> \<not> taken (users_table d) un dc
     \<and> servers_table d' = servers_table d \<and> invites_table d' = invites_table d
     \<and> map user_id (users_table d') = map user_id (users_table d)
     \<and> (\<forall>k. k \<noteq> uid \<longrightarrow> tbl_get user_id k (users_table d') = tbl_get user_id k (users_table d))
     \<and> (\<forall>u. tbl_get user_id uid (users_table d) = Some u \<longrightarrow>
           tbl_get user_id uid (users_table d') =
             Some (u\<lparr>username := un, discriminator := dc,
                     password := (if truthy pw then hash (string_of pw) else password u),
                     avatarUrl := (if avatar = Undefined then avatarUrl u else avatar),
                     admin := (case adm of Val b \<Rightarrow> Val b | _ \<Rightarrow> admin u)\<rparr>))"
proof -
  from roll_returns [OF assms] obtain k where k:
    "\<not> taken (users_table d) un (draw (rnd k))"
    "rollDiscriminator rnd (users_table d) un i = Some (draw (rnd k), Suc k)" by blast
  define dc where "dc = draw (rnd k)"
  define f where "f = (\<lambda>u::user. u\<lparr>username := un, discriminator := dc,
                     password := (if truthy pw then hash (string_of pw) else password u),
                     avatarUrl := (if avatar = Undefined then avatarUrl u else avatar),
                     admin := (case adm of Val b \<Rightarrow> Val b | _ \<Rightarrow> admin u)\<rparr>)"
  define d' where "d' = d\<lparr>users_table := tbl_update user_id uid f (users_table d)\<rparr>"
  have key: "\<And>u. user_id (f u) = user_id u" by (simp add: f_def)
  have upd: "updateUser hash rnd i d uid un pw avatar adm = Some (d', un @ ''#'' @ dc, Suc k)"
    unfolding updateUser_def k(2) d'_def f_def dc_def
    by (cases adm; cases "truthy pw"; cases "avatar = Undefined") (simp_all add: Let_def)
  have ids: "map user_id (users_table d') = map user_id (users_table d)"
    by (simp add: d'_def tbl_update_def key cong: map_cong)
  have other: "tbl_get user_id k' (users_table d') = tbl_get user_id k' (users_table d)"
    if "k' \<noteq> uid" for k'
    using that by (simp add: d'_def tbl_get_update_other key)
  have same: "tbl_get user_id uid (users_table d') = Some (f u)"
    if "tbl_get user_id uid (users_table d) = Some u" for u
    using that by (simp add: d'_def tbl_get_update_same key)
  have frame: "servers_table d' = servers_table d" "invites_table d' = invites_table d"
    by (simp_all add: d'_def)
  show ?thesis
    using k upd ids other same frame unfolding dc_def [symmetric] f_def by blast
qed

text \<open>
  On a full namespace the update does not return, whatever it was to change: here the
  avatar of one of the 9999 accounts named \<open>bob\<close>, under the unchanged username.
\<close>

theorem updateUser_exhausted_counterexample:
  "unit_interval cycle \<and> namespace_full crowd ''bob''
   \<and> updateUser plain_hash cycle 0 \<lparr>users_table = crowd, servers_table = [], invites_table = []\<rparr>
        ''1'' ''bob'' Undefined (Val ''http://x/b.png'') Undefined = None"
proof -
  have "rollDiscriminator cycle crowd ''bob'' 0 = None"
    using unit_interval_cycle namespace_full_crowd by (rule roll_full)
  then have "updateUser plain_hash cycle 0 \<lparr>users_table = crowd, servers_table = [], invites_table = []\<rparr>
        ''1'' ''bob'' Undefined (Val ''http://x/b.png'') Undefined = None"
    by (simp add: updateUser_def)
  with unit_interval_cycle namespace_full_crowd show ?thesis by (intro conjI)
qed

text \<open>
  The instance: \<open>alice#0001\<close> is updated under her own username with no password, a
  \<open>null\<close> avatar and \<open>admin = true\<close>. Her own 0001 counts as taken, so she becomes
  \<open>alice#0002\<close>; the password hash stays.
\<close>

theorem updateUser_frame_witness:
  "draws_every_value cycle 0 \<and> \<not> namespace_full (users_table store0) ''alice''
   \<and> tbl_get user_id ''7'' (users_table store0) = Some alice
   \<and> (\<exists>d'. updateUser plain_hash cycle 0 store0 ''7'' ''alice'' Undefined Null (Val True)
              = Some (d', ''alice#0002'', 3)
          \<and> tbl_get user_id ''7'' (users_table d')
              = Some (alice\<lparr>discriminator := ''0002'', avatarUrl := Null, admin := Val True\<rparr>))"
proof -
  have u: "users_table store0 = [alice]" by (simp add: store0_def)
  have h2: "\<not> namespace_full (users_table store0) ''alice''"
    unfolding u by (rule alice_namespace)
  have g: "tbl_get user_id ''7'' (users_table store0) = Some alice"
    by (simp add: u tbl_get_def alice_def)
  from updateUser_frame [where rnd = cycle and i = 0 and d = store0 and un = "''alice''"
      and hash = plain_hash and uid = "''7''" and pw = Undefined and avatar = Null
      and adm = "Val True", OF draws_every_value_cycle h2]
  obtain dc j d' where r: "rollDiscriminator cycle (users_table store0) ''alice'' 0 = Some (dc, j)"
    and up: "updateUser plain_hash cycle 0 store0 ''7'' ''alice'' Undefined Null (Val True)
              = Some (d', ''alice'' @ ''#'' @ dc, j)"
    and row: "\<forall>u. tbl_get user_id ''7'' (users_table store0) = Some u \<longrightarrow>
           tbl_get user_id ''7'' (users_table d') =
             Some (u\<lparr>username := ''alice'', discriminator := dc,
                     password := (if truthy Undefined then plain_hash (string_of Undefined) else password u),
                     avatarUrl := (if (Null :: string js_field) = Undefined then avatarUrl u else Null),
                     admin := (case Val True of Val b \<Rightarrow> Val b | _ \<Rightarrow> admin u)\<rparr>)"
    by blast
  from r have dc: "dc = ''0002''" "j = 3" by (simp_all add: u roll_alice)
  have "tbl_get user_id ''7'' (users_table d')
      = Some (alice\<lparr>discriminator := ''0002'', avatarUrl := Null, admin := Val True\<rparr>)"
    using row [rule_format, OF g] by (simp add: dc alice_def)
  with up dc have "\<exists>d'. updateUser plain_hash cycle 0 store0 ''7'' ''alice'' Undefined Null (Val True)
              = Some (d', ''alice#0002'', 3)
          \<and> tbl_get user_id ''7'' (users_table d')
              = Some (alice\<lparr>discriminator := ''0002'', avatarUrl := Null, admin := Val True\<rparr>)"
    by simp
  with draws_every_value_cycle [of 0] h2 g show ?thesis by (intro conjI)
qed

subsection \<open>Authentication\<close>

lemma nth0_default:
  "(case reql_default None (map_sum (\<lambda>e. e) Some (reql_nth0 xs)) of
      Inl e \<Rightarrow> Inl e | Inr None \<Rightarrow> Inr None | Inr (Some u) \<Rightarrow> g u)
   = (case xs of [] \<Rightarrow> Inr None | u # _ \<Rightarrow> g u)"
  by (cases xs) (simp_all add: reql_nth0_def reql_default_def)

lemma find_filter: "find P xs = (case filter P xs of [] \<Rightarrow> None | x # _ \<Rightarrow> Some x)"
  by (induction xs) auto

lemma element_Cons0: "element (x # xs) 0 = Val x"
  by (simp add: element_def)

lemma element_Cons1: "element (x # y # xs) (Suc 0) = Val y"
  by (simp add: element_def)

text \<open>The lookup and the password test, as one expression.\<close>

lemma authenticate_Inr:
  "authenticate decode compare d auth =
     Inr (case auth of
            None \<Rightarrow> None
          | Some a \<Rightarrow>
              if a = [] \<or> Val ''Basic'' \<noteq> element (split (CHR '' '') a) 0
                 \<or> \<not> truthy (element (split (CHR '' '') a) 1)
                 \<or> \<not> truthy (element (split (CHR '':'') (decode (string_of (element (split (CHR '' '') a) 1)))) 0)
                 \<or> \<not> truthy (element (split (CHR '':'') (decode (string_of (element (split (CHR '' '') a) 1)))) 1)
                 \<or> \<not> truthy (element (split (CHR ''#'') (string_of (element (split (CHR '':'') (decode (string_of (element (split (CHR '' '') a) 1)))) 0))) 0)
                 \<or> \<not> truthy (element (split (CHR ''#'') (string_of (element (split (CHR '':'') (decode (string_of (element (split (CHR '' '') a) 1)))) 0))) 1)
              then None
              else (case find (\<lambda>u. username u = string_of (element (split (CHR ''#'') (string_of (element (split (CHR '':'') (decode (string_of (element (split (CHR '' '') a) 1)))) 0))) 0)
                                \<and> discriminator u = string_of (element (split (CHR ''#'') (string_of (element (split (CHR '':'') (decode (string_of (element (split (CHR '' '') a) 1)))) 0))) 1))
                           (users_table d) of
                      None \<Rightarrow> None
                    | Some u \<Rightarrow>
                        if compare (string_of (element (split (CHR '':'') (decode (string_of (element (split (CHR '' '') a) 1)))) 1)) (password u)
                        then Some u else None))"
  unfolding authenticate_def Let_def nth0_default find_filter
  by (simp split: option.splits list.splits)

lemma auth_total: "\<exists>r. authenticate decode compare d auth = Inr r"
  by (subst authenticate_Inr) blast

lemma auth_empty:
  "auth = None \<or> auth = Some [] \<Longrightarrow> authenticate decode compare d auth = Inr None"
  by (subst authenticate_Inr) auto

lemma auth_scheme:
  "auth = Some a \<Longrightarrow> element (split (CHR '' '') a) 0 \<noteq> Val ''Basic'' \<Longrightarrow>
   authenticate decode compare d auth = Inr None"
  by (subst authenticate_Inr) auto

lemma auth_payload:
  "auth = Some a \<Longrightarrow> \<not> truthy (element (split (CHR '' '') a) 1) \<Longrightarrow>
   authenticate decode compare d auth = Inr None"
  by (subst authenticate_Inr) simp

lemma auth_parts:
  "auth = Some a \<Longrightarrow> element (split (CHR '' '') a) 1 = Val cr \<Longrightarrow>
   element (split (CHR '':'') (decode cr)) 0 = Val un \<Longrightarrow>
   \<not> truthy (element (split (CHR '':'') (decode cr)) 1)
     \<or> \<not> truthy (element (split (CHR ''#'') un) 0)
     \<or> \<not> truthy (element (split (CHR ''#'') un) 1) \<Longrightarrow>
   authenticate decode compare d auth = Inr None"
  by (subst authenticate_Inr) auto

lemma auth_lookup:
  assumes "auth = Some a" "split (CHR '' '') a = ''Basic'' # cr # r1" "cr \<noteq> []"
    "split (CHR '':'') (decode cr) = un # pw # r2" "pw \<noteq> []"
    "split (CHR ''#'') un = n # dc # r3" "n \<noteq> []" "dc \<noteq> []"
  shows "authenticate decode compare d auth =
     Inr (case find (\<lambda>u. username u = n \<and> discriminator u = dc) (users_table d) of
            None \<Rightarrow> None
          | Some u \<Rightarrow> if compare pw (password u) then Some u else None)"
proof -
  have "a \<noteq> []" using assms(2) by auto
  moreover have "un \<noteq> []" using assms(6,7) by auto
  moreover have "element (split (CHR '' '') a) 0 = Val ''Basic''"
    "element (split (CHR '' '') a) 1 = Val cr"
    "element (split (CHR '':'') (decode cr)) 0 = Val un"
    "element (split (CHR '':'') (decode cr)) 1 = Val pw"
    "element (split (CHR ''#'') un) 0 = Val n"
    "element (split (CHR ''#'') un) 1 = Val dc"
    unfolding assms One_nat_def by (rule element_Cons0 element_Cons1)+
  ultimately show ?thesis
    using assms(1,3,5,7,8) unfolding authenticate_Inr
    by (simp only: option.case string_of.simps truthy.simps simp_thms if_False)
qed

lemma auth_found:
  assumes "authenticate decode compare d auth = Inr (Some u)"
  shows "u \<in> set (users_table d)"
proof -
  from assms obtain P where "find P (users_table d) = Some u"
    unfolding authenticate_Inr by (simp split: option.splits if_splits)
  then show ?thesis by (auto simp: find_Some_iff)
qed

text \<open>
  C1. \<open>authenticate\<close> never throws: it always returns a value, for any header, decoder
  and comparison. The value is none for a missing or empty header, for a first word
  other than \<open>Basic\<close>, for a missing or empty second word, and for a decoded payload
  whose password (the segment after the first colon), name or discriminator (the
  segments of the part before the first colon around its first \<open>#\<close>) is missing or
  empty. In every other case the value is decided by the first account with exactly
  that name and discriminator: none if there is no such account, the account if
  \<open>compare\<close> accepts the password against its hash, none if not.
\<close>

theorem authenticate_outcomes:
  "(\<exists>r. authenticate decode compare d auth = Inr r)
   \<and> (auth = None \<or> auth = Some [] \<longrightarrow> authenticate decode compare d auth = Inr None)
   \<and> (\<forall>a. auth = Some a \<and> element (split (CHR '' '') a) 0 \<noteq> Val ''Basic''
         \<longrightarrow> authenticate decode compare d auth = Inr None)
   \<and> (\<forall>a. auth = Some a \<and> \<not> truthy (element (split (CHR '' '') a) 1)
         \<longrightarrow> authenticate decode compare d auth = Inr None)
   \<and> (\<forall>a cr un. auth = Some a \<and> element (split (CHR '' '') a) 1 = Val cr
           \<and> element (split (CHR '':'') (decode cr)) 0 = Val un
           \<and> (\<not> truthy (element (split (CHR '':'') (decode cr)) 1)
               \<or> \<not> truthy (element (split (CHR ''#'') un) 0)
               \<or> \<not> truthy (element (split (CHR ''#'') un) 1))
         \<longrightarrow> authenticate decode compare d auth = Inr None)
   \<and> (\<forall>a cr r1 un pw r2 n dc r3.
           auth = Some a \<and> split (CHR '' '') a = ''Basic'' # cr # r1 \<and> cr \<noteq> []
           \<and> split (CHR '':'') (decode cr) = un # pw # r2 \<and> pw \<noteq> []
           \<and> split (CHR ''#'') un = n # dc # r3 \<and> n \<noteq> [] \<and> dc \<noteq> []
         \<longrightarrow> authenticate decode compare d auth =
               Inr (case find (\<lambda>u. username u = n \<and> discriminator u = dc) (users_table d) of
                      None \<Rightarrow> None
                    | Some u \<Rightarrow> if compare pw (password u) then Some u else None))
   \<and> (\<forall>u. authenticate decode compare d auth = Inr (Some u) \<longrightarrow> u \<in> set (users_table d))"
proof (intro conjI allI impI, goal_cases)
  case 1
  show ?case by (rule auth_total)
next
  case 2
  then show ?case by (rule auth_empty)
next
  case (3 a)
  then show ?case by (elim conjE) (rule auth_scheme)
next
  case (4 a)
  then show ?case by (elim conjE) (rule auth_payload)
next
  case (5 a cr un)
  then show ?case by (elim conjE) (rule auth_parts)
next
  case (6 a cr r1 un pw r2 n dc r3)
  then show ?case by (elim conjE) (rule auth_lookup)
next
  case (7 u)
  then show ?case by (rule auth_found)
qed

text \<open>Concrete headers and what they decode to.\<close>

lemma split_header_secret:
  "split (CHR '' '') ''Basic YWxpY2UjMDAwMTpzZWNyZXQ='' = [''Basic'', ''YWxpY2UjMDAwMTpzZWNyZXQ='']"
  by simp

lemma split_header_wrong:
  "split (CHR '' '') ''Basic YWxpY2UjMDAwMTp3cm9uZw=='' = [''Basic'', ''YWxpY2UjMDAwMTp3cm9uZw=='']"
  by simp

lemma split_header_colon:
  "split (CHR '' '') ''Basic YWxpY2UjMDAwMTpwYTpzcw=='' = [''Basic'', ''YWxpY2UjMDAwMTpwYTpzcw=='']"
  by simp

lemma decode_secret: "from_base64 ''YWxpY2UjMDAwMTpzZWNyZXQ='' = ''alice#0001:secret''"
  by (simp add: from_base64_def char_of_def bit_iff_odd)

lemma decode_wrong: "from_base64 ''YWxpY2UjMDAwMTp3cm9uZw=='' = ''alice#0001:wrong''"
  by (simp add: from_base64_def char_of_def bit_iff_odd)

lemma decode_colon: "from_base64 ''YWxpY2UjMDAwMTpwYTpzcw=='' = ''alice#0001:pa:ss''"
  by (simp add: from_base64_def char_of_def bit_iff_odd)

lemma split_tag: "split (CHR ''#'') ''alice#0001'' = [''alice'', ''0001'']"
  by simp

text \<open>
  The instance: the header for \<open>alice#0001:secret\<close> returns \<open>alice\<close>; the header for
  \<open>alice#0001:wrong\<close>, a header without payload, a \<open>Bearer\<close> header and no header
  return none.
\<close>

theorem authenticate_outcomes_witness:
  "authenticate from_base64 plain_compare store0 (Some ''Basic YWxpY2UjMDAwMTpzZWNyZXQ='')
     = Inr (Some alice)
   \<and> authenticate from_base64 plain_compare store0 (Some ''Basic YWxpY2UjMDAwMTp3cm9uZw=='')
     = Inr None
   \<and> authenticate from_base64 plain_compare store0 (Some ''Basic'') = Inr None
   \<and> authenticate from_base64 plain_compare store0 (Some ''Bearer YWxpY2UjMDAwMTpzZWNyZXQ='') = Inr None
   \<and> authenticate from_base64 plain_compare store0 None = Inr None"
proof -
  have f: "find (\<lambda>u. username u = ''alice'' \<and> discriminator u = ''0001'') (users_table store0)
             = Some alice"
    by (simp add: store0_def alice_def)
  have p: "plain_compare ''secret'' (password alice)" "\<not> plain_compare ''wrong'' (password alice)"
    by (simp_all add: plain_compare_def plain_hash_def alice_def)
  have 1: "authenticate from_base64 plain_compare store0 (Some ''Basic YWxpY2UjMDAwMTpzZWNyZXQ='')
     = Inr (Some alice)"
    using authenticate_outcomes [of from_base64 plain_compare store0
        "Some ''Basic YWxpY2UjMDAwMTpzZWNyZXQ=''",
        THEN conjunct2, THEN conjunct2, THEN conjunct2, THEN conjunct2, THEN conjunct2,
        THEN conjunct1, rule_format,
        of "''Basic YWxpY2UjMDAwMTpzZWNyZXQ=''" "''YWxpY2UjMDAwMTpzZWNyZXQ=''" "[]"
           "''alice#0001''" "''secret''" "[]" "''alice''" "''0001''" "[]"]
    by (simp add: split_header_secret decode_secret split_tag f p)
  have 2: "authenticate from_base64 plain_compare store0 (Some ''Basic YWxpY2UjMDAwMTp3cm9uZw=='')
     = Inr None"
    using authenticate_outcomes [of from_base64 plain_compare store0
        "Some ''Basic YWxpY2UjMDAwMTp3cm9uZw==''",
        THEN conjunct2, THEN conjunct2, THEN conjunct2, THEN conjunct2, THEN conjunct2,
        THEN conjunct1, rule_format,
        of "''Basic YWxpY2UjMDAwMTp3cm9uZw==''" "''YWxpY2UjMDAwMTp3cm9uZw==''" "[]"
           "''alice#0001''" "''wrong''" "[]" "''alice''" "''0001''" "[]"]
    by (simp add: split_header_wrong decode_wrong split_tag f p)
  have 3: "authenticate from_base64 plain_compare store0 (Some ''Basic'') = Inr None"
    using authenticate_outcomes [of from_base64 plain_compare store0 "Some ''Basic''",
        THEN conjunct2, THEN conjunct2, THEN conjunct2, THEN conjunct1, rule_format, of "''Basic''"]
    by (simp add: element_def)
  have 4: "authenticate from_base64 plain_compare store0 (Some ''Bearer YWxpY2UjMDAwMTpzZWNyZXQ='') = Inr None"
    using authenticate_outcomes [of from_base64 plain_compare store0
        "Some ''Bearer YWxpY2UjMDAwMTpzZWNyZXQ=''",
        THEN conjunct2, THEN conjunct2, THEN conjunct1, rule_format,
        of "''Bearer YWxpY2UjMDAwMTpzZWNyZXQ=''"]
    by (simp add: element_def)
  have 5: "authenticate from_base64 plain_compare store0 None = Inr None"
    using authenticate_outcomes [of from_base64 plain_compare store0 None,
        THEN conjunct2, THEN conjunct1]
    by simp
  from 1 2 3 4 5 show ?thesis by (intro conjI)
qed

text \<open>
  C2. The account \<open>alice#0001\<close> of \<open>store2\<close> has the password \<open>pa:ss\<close>, and the header
  carries the base64 of \<open>alice#0001:pa:ss\<close>. \<open>split(':')\<close> cuts the payload at every
  colon and the array pattern keeps the first two segments, so the password compared
  is \<open>pa\<close>, the comparison fails and the result is none.
\<close>

theorem authenticate_colon_password:
  "from_base64 ''YWxpY2UjMDAwMTpwYTpzcw=='' = ''alice#0001:pa:ss''
   \<and> split (CHR '':'') ''alice#0001:pa:ss'' = [''alice#0001'', ''pa'', ''ss'']
   \<and> tbl_get user_id ''7'' (users_table store2) = Some (alice\<lparr>password := plain_hash ''pa:ss''\<rparr>)
   \<and> plain_compare ''pa:ss'' (plain_hash ''pa:ss'')
   \<and> authenticate from_base64 plain_compare store2 (Some ''Basic YWxpY2UjMDAwMTpwYTpzcw=='')
       = Inr None"
proof -
  have s: "split (CHR '':'') ''alice#0001:pa:ss'' = [''alice#0001'', ''pa'', ''ss'']"
    by simp
  have g: "tbl_get user_id ''7'' (users_table store2) = Some (alice\<lparr>password := plain_hash ''pa:ss''\<rparr>)"
    by (simp add: store2_def tbl_get_def alice_def)
  have c: "plain_compare ''pa:ss'' (plain_hash ''pa:ss'')"
    by (simp add: plain_compare_def)
  have f: "find (\<lambda>u. username u = ''alice'' \<and> discriminator u = ''0001'') (users_table store2)
             = Some (alice\<lparr>password := plain_hash ''pa:ss''\<rparr>)"
    by (simp add: store2_def alice_def)
  have n: "\<not> plain_compare ''pa'' (plain_hash ''pa:ss'')"
    by (simp add: plain_compare_def plain_hash_def)
  have "authenticate from_base64 plain_compare store2 (Some ''Basic YWxpY2UjMDAwMTpwYTpzcw=='')
       = Inr None"
    using auth_lookup [of "Some ''Basic YWxpY2UjMDAwMTpwYTpzcw==''" "''Basic YWxpY2UjMDAwMTpwYTpzcw==''"
        "''YWxpY2UjMDAwMTpwYTpzcw==''" "[]" from_base64 "''alice#0001''" "''pa''" "[''ss'']"
        "''alice''" "''0001''" "[]" plain_compare store2]
    by (simp add: split_header_colon decode_colon split_tag f n)
  with decode_colon s g c show ?thesis by (intro conjI)
qed

theorem authenticate_colon_password_witness:
  "authenticate from_base64 plain_compare store2 (Some ''Basic YWxpY2UjMDAwMTpwYTpzcw=='')
     \<noteq> Inr (tbl_get user_id ''7'' (users_table store2))"
  using authenticate_colon_password by simp

text \<open>
  What follows the second colon is dropped as well: the header for
  \<open>alice#0001:secret:junk\<close> authenticates the account whose password is \<open>secret\<close>.
\<close>

lemma authenticate_trailing_ignored:
  "authenticate from_base64 plain_compare store0 (Some ''Basic YWxpY2UjMDAwMTpzZWNyZXQ6anVuaw=='')
     = Inr (Some alice)"
proof -
  have h: "split (CHR '' '') ''Basic YWxpY2UjMDAwMTpzZWNyZXQ6anVuaw==''
      = [''Basic'', ''YWxpY2UjMDAwMTpzZWNyZXQ6anVuaw=='']"
    by simp
  have dcd: "from_base64 ''YWxpY2UjMDAwMTpzZWNyZXQ6anVuaw=='' = ''alice#0001:secret:junk''"
    by (simp add: from_base64_def char_of_def bit_iff_odd)
  have f: "find (\<lambda>u. username u = ''alice'' \<and> discriminator u = ''0001'') (users_table store0)
             = Some alice"
    by (simp add: store0_def alice_def)
  have p: "plain_compare ''secret'' (password alice)"
    by (simp add: plain_compare_def alice_def)
  show ?thesis
    using auth_lookup [of "Some ''Basic YWxpY2UjMDAwMTpzZWNyZXQ6anVuaw==''"
        "''Basic YWxpY2UjMDAwMTpzZWNyZXQ6anVuaw==''" "''YWxpY2UjMDAwMTpzZWNyZXQ6anVuaw==''" "[]"
        from_base64 "''alice#0001''" "''secret''" "[''junk'']" "''alice''" "''0001''" "[]"
        plain_compare store0]
    by (simp add: h dcd split_tag f p)
qed

end
